theory Spec2Isabelle
  imports Complex_Main "HOL-Library.Word"
begin

unbundle bit_operations_syntax

section \<open>JavaScript numbers and typed arrays\<close>

text \<open>
  The filters compute on JavaScript numbers. A number is modelled as a real, with
  \<open>None\<close> standing for \<open>NaN\<close> (the value of \<open>0 / 0\<close> and of any arithmetic on
  \<open>undefined\<close>). The arithmetic inside the aggregators and inside the Gaussian
  kernel entries is read exactly; the rounding of IEEE doubles is represented where a
  result below depends on it, namely on the products \<open>6 * sigma\<close> and
  \<open>2 * sigma * sigma\<close> of the Gaussian constructor (see \<open>fl64\<close>), and on the
  stores into the kernel's \<open>Float32Array\<close>. Infinities are not represented: no
  result below is stated where a product overflows. On the integer-valued filters (mean, min,
  max, midpoint, median) this reading is exact for every neighbourhood of fewer than
  \<open>2^45\<close> samples: the sums are integers below \<open>2^53\<close>, a quotient
  \<open>sum / count\<close> that is not a half-integer lies at least \<open>1 / (2 * count)\<close>
  away from the nearest one, more than the rounding of the division can move it, and
  half-integers of this size are doubles; so \<open>Math.round\<close> of the computed quotient
  is \<open>Math.round\<close> of the exact one. On the geometric, harmonic and contraharmonic
  mean and on the Gaussian convolution the results below are statements about the
  formulas the code evaluates, in exact arithmetic.

  All numeric arguments (sigma, Q) stand for the doubles the caller passes.
\<close>

type_synonym jsnum = "real option"

type_synonym u8 = "8 word"

type_synonym raster = "u8 list"

definition js_lift2 :: "(real \<Rightarrow> real \<Rightarrow> real) \<Rightarrow> jsnum \<Rightarrow> jsnum \<Rightarrow> jsnum" where
  "js_lift2 f a b =
     (case a of None \<Rightarrow> None
      | Some x \<Rightarrow> (case b of None \<Rightarrow> None | Some y \<Rightarrow> Some (f x y)))"

definition js_add :: "jsnum \<Rightarrow> jsnum \<Rightarrow> jsnum" where
  "js_add = js_lift2 (+)"

definition js_mul :: "jsnum \<Rightarrow> jsnum \<Rightarrow> jsnum" where
  "js_mul = js_lift2 (*)"

text \<open>\<open>Math.min\<close> and \<open>Math.max\<close> return \<open>NaN\<close> when an argument is \<open>NaN\<close>.\<close>

definition js_min :: "jsnum \<Rightarrow> jsnum \<Rightarrow> jsnum" where
  "js_min = js_lift2 min"

definition js_max :: "jsnum \<Rightarrow> jsnum \<Rightarrow> jsnum" where
  "js_max = js_lift2 max"

text \<open>
  Division: \<open>0 / 0\<close> is \<open>NaN\<close>. A non-zero numerator over zero is an infinity in
  JavaScript; the model has no infinities and returns \<open>None\<close> there as well. In the
  aggregators a zero denominator arises only from an empty neighbourhood, where the
  numerator is zero too; in the Gaussian kernel it arises only when the double
  \<open>2 * sigma * sigma\<close> is zero, where the centre entry is \<open>0 / 0\<close> and the
  normalisation turns every entry into \<open>NaN\<close> whatever the other entries were.
\<close>

definition js_div :: "jsnum \<Rightarrow> jsnum \<Rightarrow> jsnum" where
  "js_div a b =
     (case a of None \<Rightarrow> None
      | Some x \<Rightarrow> (case b of None \<Rightarrow> None
                   | Some y \<Rightarrow> if y = 0 then None else Some (x / y)))"

text \<open>\<open>Math.round\<close>: the nearest integer, a tie going up.\<close>

definition js_round :: "jsnum \<Rightarrow> jsnum" where
  "js_round a = map_option (\<lambda>x. of_int \<lfloor>x + 1 / 2\<rfloor>) a"

text \<open>\<open>Math.log\<close> and \<open>Math.exp\<close>; the logarithm of a non-positive number is not a real.\<close>

definition js_log :: "jsnum \<Rightarrow> jsnum" where
  "js_log a = (case a of None \<Rightarrow> None | Some x \<Rightarrow> if 0 < x then Some (ln x) else None)"

definition js_exp :: "jsnum \<Rightarrow> jsnum" where
  "js_exp a = map_option exp a"

text \<open>
  \<open>Math.pow\<close>, needed on a positive base only (a sample plus epsilon). The power is
  the exact one: a double power that overflows to \<open>Infinity\<close> (a large \<open>Q\<close>) is
  not represented, so the contraharmonic aggregator is relied on below only at
  \<open>Q = 0\<close> and \<open>Q = -1\<close>, where the powers are \<open>1\<close>, the base and its
  reciprocal.
\<close>

definition js_pow :: "jsnum \<Rightarrow> real \<Rightarrow> jsnum" where
  "js_pow a q = (case a of None \<Rightarrow> None | Some x \<Rightarrow> if 0 < x then Some (x powr q) else None)"

definition epsilon :: real where
  "epsilon = 1 / 10 ^ 10"

text \<open>
  Reading a \<open>Uint8ClampedArray\<close>: an index outside the array gives \<open>undefined\<close>,
  which every arithmetic operation turns into \<open>NaN\<close>.
\<close>

definition rdByte :: "raster \<Rightarrow> int \<Rightarrow> u8 option" where
  "rdByte data i = (if 0 \<le> i \<and> i < int (length data) then Some (data ! nat i) else None)"

definition rd :: "raster \<Rightarrow> int \<Rightarrow> jsnum" where
  "rd data i = map_option (\<lambda>v. real (unat v)) (rdByte data i)"

text \<open>
  Writing a number into a \<open>Uint8ClampedArray\<close>: \<open>NaN\<close> becomes 0, the value is
  clamped to 0..255 and rounded to the nearest integer, a tie going to the even one.
  A write outside the array is ignored, as \<open>list_update\<close> does.
\<close>

definition roundHalfEven :: "real \<Rightarrow> int" where
  "roundHalfEven x =
     (let f = \<lfloor>x\<rfloor> in
      if x - of_int f < 1 / 2 then f
      else if 1 / 2 < x - of_int f then f + 1
      else if even f then f else f + 1)"

definition toUint8Clamp :: "jsnum \<Rightarrow> u8" where
  "toUint8Clamp a =
     (case a of None \<Rightarrow> 0
      | Some x \<Rightarrow> if x \<le> 0 then 0 else if 255 \<le> x then 255
                  else word_of_int (roundHalfEven x))"

section \<open>Rounding to a floating-point format\<close>

text \<open>
  Rounding a real to the nearest number with \<open>p\<close> significant bits and least normal
  exponent \<open>emin\<close>, a tie going to the even significand, as IEEE 754 prescribes for
  every arithmetic operation: below \<open>2^emin\<close> the spacing stays that of the lowest
  binade (subnormal numbers), so that a small enough value rounds to 0. Overflow to an
  infinity is not represented.
\<close>

definition roundTo :: "nat \<Rightarrow> int \<Rightarrow> real \<Rightarrow> real" where
  "roundTo p emin x =
     (if x = 0 then 0
      else let e = max \<lfloor>log 2 \<bar>x\<bar>\<rfloor> emin;
               q = 2 powr real_of_int (e - int p + 1)
           in q * real_of_int (roundHalfEven (x / q)))"

text \<open>Doubles (the JavaScript numbers) and singles (the elements of a \<open>Float32Array\<close>).\<close>

definition fl64 :: "real \<Rightarrow> real" where
  "fl64 = roundTo 53 (- 1022)"

definition single :: "real \<Rightarrow> real" where
  "single = roundTo 24 (- 126)"

section \<open>Boundary policy and neighbourhood sampler\<close>

text \<open>
  The coordinate fix-up that every aggregator applies to \<open>newX\<close> against \<open>width\<close> and
  to \<open>newY\<close> against \<open>height\<close>: two assignments in sequence, the second one testing
  the value the first one left, then the clamp.
\<close>

definition validCoord :: "int \<Rightarrow> int \<Rightarrow> int" where
  "validCoord n c =
     (let v = (if c < 0 then \<bar>c\<bar> else c);
          v = (if n \<le> v then n - 1 - (v - n + 1) else v)
      in max 0 (min (n - 1) v))"

text \<open>
  The nested iteration over \<open>dy\<close> and \<open>dx\<close>, each from \<open>-radius\<close> to \<open>radius\<close>:
  the \<open>pixelIndex\<close> of every sample, in the order of the visits.
\<close>

definition samplePositions :: "int \<Rightarrow> int \<Rightarrow> int \<Rightarrow> int \<Rightarrow> int \<Rightarrow> int list" where
  "samplePositions rad centerX centerY width height =
     concat (map (\<lambda>dy. map (\<lambda>dx.
        (validCoord height (centerY + dy) * width + validCoord width (centerX + dx)) * 4)
        [- rad..rad]) [- rad..rad])"

section \<open>Filter objects\<close>

datatype error = ValidationError | RangeError | PixelAccessError

datatype kind =
    MeanFilter
  | MedianFilter
  | MinFilter
  | MaxFilter
  | MidpointFilter
  | GeometricMeanFilter
  | HarmonicMeanFilter
  | ContraharmonicMeanFilter (Q: real)

record kernelSpec =
  kernelSize :: int
  radius :: int

record filter = kernelSpec +
  kind :: kind

text \<open>
  The constructor shared by the eight aggregator classes: an even size throws, otherwise
  the size and \<open>Math.floor(kernelSize / 2)\<close> are stored.
\<close>

definition constructor :: "kind \<Rightarrow> int \<Rightarrow> error + filter" where
  "constructor c ksize =
     (if ksize mod 2 = 0 then Inl ValidationError
      else Inr \<lparr>kernelSize = ksize, radius = ksize div 2, kind = c\<rparr>)"

datatype 'a rgb = Rgb (chR: 'a) (chG: 'a) (chB: 'a)

text \<open>
  The three channels are accumulated side by side in the source, at offsets 0, 1 and 2
  from \<open>pixelIndex\<close>, with no interaction between them.
\<close>

definition perChannel :: "(int \<Rightarrow> 'a) \<Rightarrow> 'a rgb" where
  "perChannel F = Rgb (F 0) (F 1) (F 2)"

section \<open>Aggregators\<close>

definition calculateMeanValues :: "int \<Rightarrow> raster \<Rightarrow> int \<Rightarrow> int \<Rightarrow> int \<Rightarrow> int \<Rightarrow> jsnum rgb" where
  "calculateMeanValues rad data centerX centerY width height =
     (let ps = samplePositions rad centerX centerY width height;
          count = Some (real (length ps))
      in perChannel (\<lambda>ch.
           js_round (js_div (fold (\<lambda>p sum. js_add sum (rd data (p + ch))) ps (Some 0)) count)))"

definition calculateMinValues :: "int \<Rightarrow> raster \<Rightarrow> int \<Rightarrow> int \<Rightarrow> int \<Rightarrow> int \<Rightarrow> jsnum rgb" where
  "calculateMinValues rad data centerX centerY width height =
     (let ps = samplePositions rad centerX centerY width height
      in perChannel (\<lambda>ch. fold (\<lambda>p m. js_min m (rd data (p + ch))) ps (Some 255)))"

definition calculateMaxValues :: "int \<Rightarrow> raster \<Rightarrow> int \<Rightarrow> int \<Rightarrow> int \<Rightarrow> int \<Rightarrow> jsnum rgb" where
  "calculateMaxValues rad data centerX centerY width height =
     (let ps = samplePositions rad centerX centerY width height
      in perChannel (\<lambda>ch. fold (\<lambda>p m. js_max m (rd data (p + ch))) ps (Some 0)))"

definition calculateMidpointValues :: "int \<Rightarrow> raster \<Rightarrow> int \<Rightarrow> int \<Rightarrow> int \<Rightarrow> int \<Rightarrow> jsnum rgb" where
  "calculateMidpointValues rad data centerX centerY width height =
     (let ps = samplePositions rad centerX centerY width height
      in perChannel (\<lambda>ch.
           js_round (js_div
             (js_add (fold (\<lambda>p m. js_min m (rd data (p + ch))) ps (Some 255))
                     (fold (\<lambda>p m. js_max m (rd data (p + ch))) ps (Some 0)))
             (Some 2))))"

subsection \<open>Median by histogram\<close>

text \<open>
  The histogram is a \<open>Uint16Array\<close> of 256 bins: \<open>hist[v]++\<close> is an increment modulo
  \<open>2^16\<close>. With an \<open>undefined\<close> sample no bin changes.
\<close>

type_synonym histogram = "16 word list"

definition createHistogram :: histogram where
  "createHistogram = replicate 256 0"

definition histIncr :: "u8 option \<Rightarrow> histogram \<Rightarrow> histogram" where
  "histIncr s hist =
     (case s of None \<Rightarrow> hist | Some v \<Rightarrow> hist[unat v := hist ! unat v + 1])"

text \<open>
  \<open>findMedian\<close>: the loop over the bins in index order with the running \<open>sum\<close> (here \<open>acc\<close>), which
  is an ordinary number and does not wrap; 255 when the rank is never reached.
\<close>

fun findMedianLoop :: "int \<Rightarrow> histogram \<Rightarrow> int \<Rightarrow> int \<Rightarrow> int" where
  "findMedianLoop medianIndex [] i acc = 255"
| "findMedianLoop medianIndex (c # cs) i acc =
     (if medianIndex \<le> acc + uint c then i
      else findMedianLoop medianIndex cs (i + 1) (acc + uint c))"

definition findMedian :: "int \<Rightarrow> histogram \<Rightarrow> int" where
  "findMedian medianIndex hist = findMedianLoop medianIndex hist 0 0"

definition calculateMedianValues ::
  "int \<Rightarrow> int \<Rightarrow> raster \<Rightarrow> int \<Rightarrow> int \<Rightarrow> int \<Rightarrow> int \<Rightarrow> jsnum rgb" where
  "calculateMedianValues ksize rad data centerX centerY width height =
     (let totalPixels = ksize * ksize;
          medianIndex = totalPixels div 2 + 1;
          ps = samplePositions rad centerX centerY width height
      in perChannel (\<lambda>ch.
           Some (of_int (findMedian medianIndex
             (fold (\<lambda>p hist. histIncr (rdByte data (p + ch)) hist) ps createHistogram)))))"

subsection \<open>Power means\<close>

definition calculateGeometricMean :: "int \<Rightarrow> raster \<Rightarrow> int \<Rightarrow> int \<Rightarrow> int \<Rightarrow> int \<Rightarrow> jsnum rgb" where
  "calculateGeometricMean rad data centerX centerY width height =
     (let ps = samplePositions rad centerX centerY width height;
          count = Some (real (length ps))
      in perChannel (\<lambda>ch.
           js_round (js_exp (js_div
             (fold (\<lambda>p sumLog. js_add sumLog (js_log (js_add (rd data (p + ch)) (Some epsilon))))
                ps (Some 0))
             count))))"

definition calculateHarmonicMean :: "int \<Rightarrow> raster \<Rightarrow> int \<Rightarrow> int \<Rightarrow> int \<Rightarrow> int \<Rightarrow> jsnum rgb" where
  "calculateHarmonicMean rad data centerX centerY width height =
     (let ps = samplePositions rad centerX centerY width height;
          count = Some (real (length ps))
      in perChannel (\<lambda>ch.
           js_round (js_div count
             (fold (\<lambda>p sumInv. js_add sumInv
                      (js_div (Some 1) (js_add (rd data (p + ch)) (Some epsilon))))
                ps (Some 0)))))"

definition calculateContraharmonicMean ::
  "real \<Rightarrow> int \<Rightarrow> raster \<Rightarrow> int \<Rightarrow> int \<Rightarrow> int \<Rightarrow> int \<Rightarrow> jsnum rgb" where
  "calculateContraharmonicMean q rad data centerX centerY width height =
     (let ps = samplePositions rad centerX centerY width height
      in perChannel (\<lambda>ch.
           js_max (Some 0) (js_min (Some 255) (js_round (js_div
             (fold (\<lambda>p s. js_add s (js_pow (js_add (rd data (p + ch)) (Some epsilon)) (q + 1)))
                ps (Some 0))
             (js_add
                (fold (\<lambda>p s. js_add s (js_pow (js_add (rd data (p + ch)) (Some epsilon)) q))
                   ps (Some 0))
                (Some epsilon)))))))"

text \<open>The per-pixel method of each class.\<close>

definition calculate :: "filter \<Rightarrow> raster \<Rightarrow> int \<Rightarrow> int \<Rightarrow> int \<Rightarrow> int \<Rightarrow> jsnum rgb" where
  "calculate f =
     (case kind f of
        MeanFilter \<Rightarrow> calculateMeanValues (radius f)
      | MedianFilter \<Rightarrow> calculateMedianValues (kernelSize f) (radius f)
      | MinFilter \<Rightarrow> calculateMinValues (radius f)
      | MaxFilter \<Rightarrow> calculateMaxValues (radius f)
      | MidpointFilter \<Rightarrow> calculateMidpointValues (radius f)
      | GeometricMeanFilter \<Rightarrow> calculateGeometricMean (radius f)
      | HarmonicMeanFilter \<Rightarrow> calculateHarmonicMean (radius f)
      | ContraharmonicMeanFilter q \<Rightarrow> calculateContraharmonicMean q (radius f))"

section \<open>The sweep over the image\<close>

text \<open>
  \<open>processImageData\<close> is the same in every aggregator class up to the per-pixel method
  it calls: a fresh zero-filled array of the length of \<open>data\<close>, one visit per pixel in
  row-major order writing three computed channels and the alpha byte read from
  \<open>originalData\<close>, and finally a copy of the whole array back into \<open>data\<close>, whose new
  contents are the result.
\<close>

definition writePixel ::
  "(raster \<Rightarrow> int \<Rightarrow> int \<Rightarrow> int \<Rightarrow> int \<Rightarrow> jsnum rgb) \<Rightarrow> raster \<Rightarrow> nat \<Rightarrow> nat \<Rightarrow> nat \<times> nat \<Rightarrow> raster \<Rightarrow> raster" where
  "writePixel calc originalData width height yx newData =
     (let y = fst yx; x = snd yx;
          pixelIndex = (y * width + x) * 4;
          c = calc originalData (int x) (int y) (int width) (int height)
      in newData
           [pixelIndex := toUint8Clamp (chR c),
            pixelIndex + 1 := toUint8Clamp (chG c),
            pixelIndex + 2 := toUint8Clamp (chB c),
            pixelIndex + 3 := toUint8Clamp (rd originalData (int pixelIndex + 3))])"

definition sweep ::
  "(raster \<Rightarrow> int \<Rightarrow> int \<Rightarrow> int \<Rightarrow> int \<Rightarrow> jsnum rgb) \<Rightarrow> nat \<Rightarrow> raster \<Rightarrow> nat \<Rightarrow> nat \<Rightarrow> raster" where
  "sweep calc len originalData width height =
     fold (writePixel calc originalData width height)
       (List.product [0..<height] [0..<width]) (replicate len 0)"

definition processImageData :: "filter \<Rightarrow> raster \<Rightarrow> raster \<Rightarrow> nat \<Rightarrow> nat \<Rightarrow> raster" where
  "processImageData f data originalData width height =
     sweep (calculate f) (length data) originalData width height"

section \<open>Gaussian filter\<close>

text \<open>
  The kernel lives in a \<open>Float32Array\<close>: every value stored in it is rounded to
  single precision. That rounding is a parameter \<open>f32\<close> of the model, to be
  instantiated with \<open>single\<close>. The allocation \<open>new Float32Array(kernelSize)\<close>
  throws a \<open>RangeError\<close> on a negative length; the engine's upper limit on array
  lengths is not modelled.

  \<open>sigma2 = 2 * this.sigma * this.sigma\<close> is two double multiplications, from the
  left, each rounded. The quotient, the exponential and the running sum are read exactly.
\<close>

record gaussian = kernelSpec +
  sigma :: real
  kernel :: "jsnum list"

definition createGaussianKernel :: "(real \<Rightarrow> real) \<Rightarrow> real \<Rightarrow> int \<Rightarrow> int \<Rightarrow> jsnum list" where
  "createGaussianKernel f32 sig ksize rad =
     (let sigma2 = fl64 (fl64 (2 * sig) * sig);
          vals = map (\<lambda>i. let x = i - rad in
                    js_exp (js_div (Some (- real_of_int (x * x))) (Some sigma2)))
                   [0..ksize - 1];
          total = fold (\<lambda>v s. js_add s v) vals (Some 0)
      in map (\<lambda>v. map_option f32 (js_div (map_option f32 v) total)) vals)"

text \<open>
  \<open>Math.ceil(6 * sigma) | 1\<close>: the product is a double, rounded; the bitwise or works
  on the operand converted to a signed 32-bit integer.
\<close>

definition autoKernelSize :: "real \<Rightarrow> int" where
  "autoKernelSize sig = sint ((word_of_int \<lceil>fl64 (6 * sig)\<rceil> :: 32 word) OR 1)"

definition gaussianConstructor :: "(real \<Rightarrow> real) \<Rightarrow> real \<Rightarrow> int option \<Rightarrow> error + gaussian" where
  "gaussianConstructor f32 sig ksizeArg =
     (case (case ksizeArg of
              None \<Rightarrow> Inr (autoKernelSize sig)
            | Some k \<Rightarrow> if k mod 2 = 0 then Inl ValidationError else Inr k) of
        Inl e \<Rightarrow> Inl e
      | Inr k \<Rightarrow>
          if k < 0 then Inl RangeError
          else Inr \<lparr>kernelSize = k, radius = k div 2, sigma = sig,
                     kernel = createGaussianKernel f32 sig k (k div 2)\<rparr>)"

definition kernelAt :: "gaussian \<Rightarrow> int \<Rightarrow> jsnum" where
  "kernelAt g i = (if 0 \<le> i \<and> i < int (length (kernel g)) then kernel g ! nat i else None)"

text \<open>Both passes clamp the coordinate to the nearest valid column or row.\<close>

definition convolveHorizontal :: "gaussian \<Rightarrow> raster \<Rightarrow> int \<Rightarrow> int \<Rightarrow> int \<Rightarrow> int \<Rightarrow> jsnum rgb" where
  "convolveHorizontal g data centerX centerY width height =
     perChannel (\<lambda>ch. js_round (js_max (Some 0) (js_min (Some 255)
       (fold (\<lambda>i s.
           let dx = i - radius g;
               newX = centerX + dx;
               validX = max 0 (min (width - 1) newX);
               pixelIndex = (centerY * width + validX) * 4
           in js_add s (js_mul (rd data (pixelIndex + ch)) (kernelAt g i)))
          [0..kernelSize g - 1] (Some 0)))))"

definition convolveVertical :: "gaussian \<Rightarrow> raster \<Rightarrow> int \<Rightarrow> int \<Rightarrow> int \<Rightarrow> int \<Rightarrow> jsnum rgb" where
  "convolveVertical g data centerX centerY width height =
     perChannel (\<lambda>ch. js_round (js_max (Some 0) (js_min (Some 255)
       (fold (\<lambda>i s.
           let dy = i - radius g;
               newY = centerY + dy;
               validY = max 0 (min (height - 1) newY);
               pixelIndex = (validY * width + centerX) * 4
           in js_add s (js_mul (rd data (pixelIndex + ch)) (kernelAt g i)))
          [0..kernelSize g - 1] (Some 0)))))"

text \<open>
  Each pass is the same sweep as \<open>processImageData\<close>, with the alpha byte read from
  the array the pass consumes.
\<close>

definition applyHorizontalConvolution :: "gaussian \<Rightarrow> raster \<Rightarrow> nat \<Rightarrow> nat \<Rightarrow> raster" where
  "applyHorizontalConvolution g data width height =
     sweep (convolveHorizontal g) (length data) data width height"

definition applyVerticalConvolution :: "gaussian \<Rightarrow> raster \<Rightarrow> nat \<Rightarrow> nat \<Rightarrow> raster" where
  "applyVerticalConvolution g inputData width height =
     sweep (convolveVertical g) (length inputData) inputData width height"

section \<open>applyFilter\<close>

text \<open>
  The image element and the canvas it is drawn on are outside the engine. What the
  engine sees of them is the size of the canvas and the result of \<open>getImageData\<close>:
  the pixel array, or the exception it throws when the pixels may not be read. A canvas
  handed back to the caller holds either the pixels put into it or the image drawn through
  a CSS blur of the given radius. The promise is resolved with a canvas or rejected with an
  error.
\<close>

record imageElement =
  canvasWidth :: nat
  canvasHeight :: nat
  getImageData :: "error + raster"

datatype canvas = PutImageData nat nat raster | CssBlur nat nat real

datatype outcome = Resolve canvas | Reject error

definition applySimpleFilter :: "real \<Rightarrow> imageElement \<Rightarrow> canvas" where
  "applySimpleFilter px img = CssBlur (canvasWidth img) (canvasHeight img) px"

definition applyFilter :: "filter \<Rightarrow> imageElement \<Rightarrow> outcome" where
  "applyFilter f img =
     (case getImageData img of
        Inl corsError \<Rightarrow>
          (case kind f of
             MinFilter \<Rightarrow> Reject corsError
           | MaxFilter \<Rightarrow> Reject corsError
           | MidpointFilter \<Rightarrow> Reject corsError
           | _ \<Rightarrow> Resolve (applySimpleFilter 1 img))
      | Inr data \<Rightarrow>
          Resolve (PutImageData (canvasWidth img) (canvasHeight img)
            (processImageData f data data (canvasWidth img) (canvasHeight img))))"

definition gaussianApplyFilter :: "gaussian \<Rightarrow> imageElement \<Rightarrow> outcome" where
  "gaussianApplyFilter g img =
     (case getImageData img of
        Inl corsError \<Rightarrow> Resolve (applySimpleFilter (sigma g) img)
      | Inr data \<Rightarrow>
          (let horizontalData = applyHorizontalConvolution g data (canvasWidth img) (canvasHeight img);
               finalData = applyVerticalConvolution g horizontalData (canvasWidth img) (canvasHeight img)
           in Resolve (PutImageData (canvasWidth img) (canvasHeight img) finalData)))"

text \<open>
  The callers in the page script: construct the filter from the chosen size, then apply it.
\<close>

definition runFilter :: "kind \<Rightarrow> int \<Rightarrow> imageElement \<Rightarrow> outcome" where
  "runFilter c ksize img =
     (case constructor c ksize of Inl e \<Rightarrow> Reject e | Inr f \<Rightarrow> applyFilter f img)"

section \<open>Reference notions used in the properties\<close>

text \<open>The four bytes a visit writes, by offset from the pixel's first byte.\<close>

definition written :: "(raster \<Rightarrow> int \<Rightarrow> int \<Rightarrow> int \<Rightarrow> int \<Rightarrow> jsnum rgb) \<Rightarrow> raster \<Rightarrow> nat \<Rightarrow> nat \<Rightarrow> nat \<Rightarrow> nat \<Rightarrow> nat \<Rightarrow> u8" where
  "written calc od w h y x k =
     (let c = calc od (int x) (int y) (int w) (int h) in
      if k = 0 then toUint8Clamp (chR c)
      else if k = 1 then toUint8Clamp (chG c)
      else if k = 2 then toUint8Clamp (chB c)
      else toUint8Clamp (rd od (int ((y * w + x) * 4) + 3)))"

text \<open>
  The three steps of the boundary policy as the specification words them: a coordinate
  below 0 is reflected to \<open>|c|\<close>; a coordinate from \<open>n\<close> on is reflected to
  \<open>n - 1 - (c - n + 1)\<close>; finally the result is clamped into \<open>[0, n - 1]\<close>.
\<close>

definition reflectBelow :: "int \<Rightarrow> int" where
  "reflectBelow c = (if c < 0 then \<bar>c\<bar> else c)"

definition reflectAbove :: "int \<Rightarrow> int \<Rightarrow> int" where
  "reflectAbove n c = (if n \<le> c then n - 1 - (c - n + 1) else c)"

definition clampInto :: "int \<Rightarrow> int \<Rightarrow> int" where
  "clampInto n c = max 0 (min (n - 1) c)"

definition boundaryPolicy :: "int \<Rightarrow> int \<Rightarrow> int" where
  "boundaryPolicy n c = clampInto n (reflectAbove n (reflectBelow c))"

text \<open>
  The 3 by 3 test image: every pixel (200, 200, 200, 255) except the pixel at column
  \<open>cx\<close>, row \<open>cy\<close>, which is (0, 0, 0, 255).
\<close>

definition cornerImage :: "nat \<Rightarrow> nat \<Rightarrow> raster" where
  "cornerImage cx cy =
     concat (map (\<lambda>(y, x). if x = cx \<and> y = cy then [0, 0, 0, 255] else [200, 200, 200, 255])
       (List.product [0..<3] [0..<3]))"

text \<open>A number that is an integer between 0 and 255; \<open>NaN\<close> is not.\<close>

definition byteValued :: "jsnum \<Rightarrow> bool" where
  "byteValued v =
     (case v of None \<Rightarrow> False
      | Some x \<Rightarrow> x = of_int \<lfloor>x\<rfloor> \<and> 0 \<le> x \<and> x \<le> 255)"

text \<open>The sample a position yields on a channel, when the position is inside the array.\<close>

definition sampleAt :: "raster \<Rightarrow> int \<Rightarrow> int \<Rightarrow> nat" where
  "sampleAt data ch p = unat (data ! nat (p + ch))"

text \<open>
  The literal reflected 3 by 3 neighbourhood of the specification: the pixel offsets of
  the nine coordinates around \<open>(cx, cy)\<close>, each coordinate sent through the boundary
  policy as worded above; and the rounded ninth of the sum of a channel over it.
\<close>

definition reflectedNeighbourhood :: "int \<Rightarrow> int \<Rightarrow> int \<Rightarrow> int \<Rightarrow> int list" where
  "reflectedNeighbourhood width height cx cy =
     concat (map (\<lambda>dy. map (\<lambda>dx.
         (boundaryPolicy height (cy + dy) * width + boundaryPolicy width (cx + dx)) * 4)
       [- 1, 0, 1]) [- 1, 0, 1])"

definition literalMean :: "raster \<Rightarrow> int \<Rightarrow> int \<Rightarrow> int \<Rightarrow> jsnum" where
  "literalMean data cx cy ch =
     js_round (Some (real (sum_list (map (sampleAt data ch) (reflectedNeighbourhood 3 3 cx cy))) / 9))"

text \<open>Two numbers, neither of them \<open>NaN\<close>, that differ by at most 1.\<close>

definition within1 :: "jsnum \<Rightarrow> jsnum \<Rightarrow> bool" where
  "within1 a b =
     (case a of None \<Rightarrow> False
      | Some x \<Rightarrow> (case b of None \<Rightarrow> False | Some y \<Rightarrow> \<bar>x - y\<bar> \<le> 1))"

section \<open>Rounding\<close>

lemma roundTo_normal:
  assumes "2 powr real_of_int e \<le> \<bar>x\<bar>" "\<bar>x\<bar> < 2 powr real_of_int (e + 1)" "emin \<le> e"
  shows "roundTo p emin x =
           2 powr real_of_int (e - int p + 1) *
           real_of_int (roundHalfEven (x / 2 powr real_of_int (e - int p + 1)))"
proof -
  have pos: "0 < \<bar>x\<bar>" using assms(1) less_le_trans [OF _ assms(1), of 0] by simp
  then have "\<lfloor>log 2 \<bar>x\<bar>\<rfloor> = e"
    using assms(1,2) by (simp add: floor_log_eq_powr_iff)
  then show ?thesis using pos assms(3) by (simp add: roundTo_def Let_def max_def)
qed



lemma roundHalfEven_int [simp]: "roundHalfEven (real_of_int k) = k"
  by (simp add: roundHalfEven_def)


lemma roundHalfEven_nonneg: "0 \<le> y \<Longrightarrow> 0 \<le> roundHalfEven y"
  unfolding roundHalfEven_def Let_def by auto

lemma roundTo_nonneg: "0 \<le> x \<Longrightarrow> 0 \<le> roundTo p emin x"
  by (simp add: roundTo_def Let_def roundHalfEven_nonneg)


text \<open>An integer of magnitude below \<open>2^53\<close> is a double.\<close>

lemma fl64_of_int:
  assumes "\<bar>k\<bar> < 2 ^ 53"
  shows "fl64 (real_of_int k) = real_of_int k"
proof (cases "k = 0")
  case True
  then show ?thesis by (simp add: fl64_def roundTo_def)
next
  case False
  define e where "e = \<lfloor>log 2 \<bar>real_of_int k\<bar>\<rfloor>"
  have k1: "1 \<le> \<bar>real_of_int k\<bar>" using False by (simp flip: of_int_abs)
  have lo: "2 powr real_of_int e \<le> \<bar>real_of_int k\<bar>"
    and hi: "\<bar>real_of_int k\<bar> < 2 powr real_of_int (e + 1)"
    using floor_log_eq_powr_iff [of "\<bar>real_of_int k\<bar>" 2 e] k1 by (simp_all add: e_def)
  have e0: "0 \<le> e"
    using k1 by (simp add: e_def)
  have "\<bar>real_of_int k\<bar> < 2 powr 53"
    using assms by (simp flip: of_int_abs)
  then have "2 powr real_of_int e < 2 powr 53" using lo by linarith
  then have "real_of_int e < 53" by (rule powr_less_cancel) simp
  then have e52: "e \<le> 52" by simp
  have r: "fl64 (real_of_int k) = 2 powr real_of_int (e - int 53 + 1) *
           real_of_int (roundHalfEven (real_of_int k / 2 powr real_of_int (e - int 53 + 1)))"
    unfolding fl64_def using lo hi e0 by (intro roundTo_normal) simp_all
  define d where "d = nat (52 - e)"
  have q: "2 powr real_of_int (e - int 53 + 1) = 1 / 2 ^ d"
  proof -
    have "real_of_int (e - int 53 + 1) = - real d" using e52 by (simp add: d_def)
    then show ?thesis by (simp add: powr_minus_divide powr_realpow)
  qed
  have "real_of_int k / (1 / 2 ^ d) = real_of_int (k * 2 ^ d)" by simp
  then show ?thesis unfolding r q by (simp only: roundHalfEven_int) simp
qed

text \<open>
  The product \<open>6 * sigma\<close> at the double \<open>sigma = 5254199565265579 / 2^52\<close> lies
  halfway between the doubles \<open>7\<close> and \<open>7 + 2^-50\<close> and rounds to \<open>7\<close>.
\<close>

lemma fl64_tie: "fl64 (6 * (5254199565265579 / 2 ^ 52)) = 7"
proof -
  let ?x = "6 * (5254199565265579 / 2 ^ 52) :: real"
  have "fl64 ?x = 2 powr real_of_int (2 - int 53 + 1) *
           real_of_int (roundHalfEven (?x / 2 powr real_of_int (2 - int 53 + 1)))"
    unfolding fl64_def by (rule roundTo_normal) simp_all
  also have "2 powr real_of_int (2 - int 53 + 1) = 1 / 2 ^ 50"
    by (simp add: powr_minus_divide)
  also have "roundHalfEven (?x / (1 / 2 ^ 50)) = 7881299347898368"
    by (simp add: roundHalfEven_def)
  finally show ?thesis by simp
qed


section \<open>Construction\<close>

lemma constructor_odd:
  "odd k \<Longrightarrow> constructor c k = Inr \<lparr>kernelSize = k, radius = k div 2, kind = c\<rparr>"
  by (simp add: constructor_def odd_iff_mod_2_eq_one)

lemma gaussianConstructor_explicit_odd:
  "odd k \<Longrightarrow> 0 \<le> k \<Longrightarrow>
     \<exists>g. gaussianConstructor f32 sig (Some k) = Inr g \<and> kernelSize g = k"
  by (simp add: gaussianConstructor_def odd_iff_mod_2_eq_one)

text \<open>
  Claim C2. Every aggregator constructor, and the Gaussian constructor given an explicit
  size, throws the validation error on an even size; the page's caller then rejects
  whatever the image is, so no pixel is read. The sizes 3, 5, 7 and 9 construct a filter.
\<close>

theorem even_kernel_size_rejected:
  "(even k \<longrightarrow>
      constructor c k = Inl ValidationError \<and>
      gaussianConstructor f32 sig (Some k) = Inl ValidationError \<and>
      runFilter c k img = Reject ValidationError) \<and>
   (k \<in> {3, 5, 7, 9} \<longrightarrow>
      (\<exists>f. constructor c k = Inr f \<and> kernelSize f = k \<and> radius f = (k - 1) div 2) \<and>
      (\<exists>g. gaussianConstructor f32 sig (Some k) = Inr g \<and> kernelSize g = k))"
proof (intro conjI impI)
  assume "k \<in> {3, 5, 7, 9}"
  then have k: "odd k" "0 \<le> k" by auto
  from k show "\<exists>f. constructor c k = Inr f \<and> kernelSize f = k \<and> radius f = (k - 1) div 2"
    by (auto simp add: constructor_odd elim!: oddE)
  from k show "\<exists>g. gaussianConstructor f32 sig (Some k) = Inr g \<and> kernelSize g = k"
    by (rule gaussianConstructor_explicit_odd)
qed (simp_all add: constructor_def gaussianConstructor_def runFilter_def)

theorem even_kernel_size_rejected_witness:
  "even (4 :: int) \<and>
   constructor MedianFilter 4 = Inl ValidationError \<and>
   gaussianConstructor id 1 (Some 4) = Inl ValidationError \<and>
   runFilter MedianFilter 4 \<lparr>canvasWidth = 1, canvasHeight = 1, getImageData = Inr [1, 2, 3, 255]\<rparr>
     = Reject ValidationError \<and>
   (5 :: int) \<in> {3, 5, 7, 9} \<and>
   (\<exists>f. constructor MedianFilter 5 = Inr f \<and> kernelSize f = 5 \<and> radius f = 2) \<and>
   (\<exists>g. gaussianConstructor id 1 (Some 5) = Inr g \<and> kernelSize g = 5)"
  using even_kernel_size_rejected [of 4 MedianFilter id 1
          "\<lparr>canvasWidth = 1, canvasHeight = 1, getImageData = Inr [1, 2, 3, 255]\<rparr>"]
        even_kernel_size_rejected [of 5 MedianFilter id 1]
  by simp

subsection \<open>The automatic Gaussian kernel size\<close>

lemma or_one_int: "(m::int) OR 1 = (if even m then m + 1 else m)"
  by (simp add: or_one_eq)

lemma autoKernelSize_eq:
  assumes "- (2 ^ 31) \<le> \<lceil>fl64 (6 * sig)\<rceil>" "\<lceil>fl64 (6 * sig)\<rceil> < 2 ^ 31"
  shows "autoKernelSize sig =
           (if even \<lceil>fl64 (6 * sig)\<rceil> then \<lceil>fl64 (6 * sig)\<rceil> + 1 else \<lceil>fl64 (6 * sig)\<rceil>)"
proof -
  define m where "m = \<lceil>fl64 (6 * sig)\<rceil>"
  have "(word_of_int m :: 32 word) OR 1 = word_of_int (m OR 1)"
    by (simp add: word_wi_log_defs(3) [of m 1, symmetric])
  moreover have "- (2 ^ 31) \<le> m OR 1" "m OR 1 < 2 ^ 31"
    using assms unfolding m_def [symmetric] or_one_int by (auto elim!: evenE)
  ultimately have "sint ((word_of_int m :: 32 word) OR 1) = m OR 1"
    by (simp add: sint_sbintrunc' signed_take_bit_int_eq_self)
  then show ?thesis
    by (simp add: autoKernelSize_def m_def [symmetric] or_one_int)
qed

lemma fl64_2400000000: "fl64 2400000000 = 2400000000"
  using fl64_of_int [of 2400000000] by simp

text \<open>
  Claim C6, as stated: for every positive sigma the automatic size is the smallest odd
  integer that is at least \<open>6 * sigma\<close>. The bitwise or truncates to 32 bits, so at
  \<open>sigma = 4 * 10^8\<close> the computed size is negative, below \<open>6 * sigma\<close>, and the
  constructor throws on allocating the kernel.
\<close>

theorem auto_kernel_size_counterexample:
  "gaussianConstructor id 400000000 None = Inl RangeError \<and>
   \<not> 6 * 400000000 \<le> real_of_int (autoKernelSize 400000000)"
  by (simp add: gaussianConstructor_def autoKernelSize_def fl64_2400000000)

text \<open>
  The size is computed from the double product, which can lie below the exact one: at
  \<open>sigma = 5254199565265579 / 2^52\<close> the product rounds to \<open>7\<close> and the size is
  \<open>7\<close>, less than \<open>6 * sigma\<close>.
\<close>

lemma auto_kernel_size_rounded_product:
  "autoKernelSize (5254199565265579 / 2 ^ 52) = 7 \<and>
   real_of_int (autoKernelSize (5254199565265579 / 2 ^ 52)) < 6 * (5254199565265579 / 2 ^ 52)"
proof -
  have "autoKernelSize (5254199565265579 / 2 ^ 52) = 7"
    unfolding autoKernelSize_def fl64_tie by simp
  then show ?thesis by simp
qed

text \<open>
  Claim C6, amended: for every positive sigma for which \<open>Math.ceil\<close> of the double
  product \<open>6 * sigma\<close> fits a signed 32-bit integer, construction without a size
  succeeds and the kernel size is the smallest odd integer that is at least the double
  product \<open>6 * sigma\<close>, that is, the exact product rounded to the nearest double.
\<close>

theorem auto_kernel_size_smallest_odd:
  assumes "0 < sig" and "\<lceil>fl64 (6 * sig)\<rceil> < 2 ^ 31"
  shows "\<exists>g. gaussianConstructor f32 sig None = Inr g \<and>
             odd (kernelSize g) \<and> fl64 (6 * sig) \<le> real_of_int (kernelSize g) \<and>
             (\<forall>j. odd j \<and> fl64 (6 * sig) \<le> real_of_int j \<longrightarrow> kernelSize g \<le> j)"
proof -
  define m where "m = \<lceil>fl64 (6 * sig)\<rceil>"
  have "0 \<le> fl64 (6 * sig)"
    unfolding fl64_def using assms(1) by (intro roundTo_nonneg) simp
  then have m0: "0 \<le> m" by (simp add: m_def)
  have k: "autoKernelSize sig = (if even m then m + 1 else m)"
    unfolding m_def using autoKernelSize_eq [of sig] assms m0 [unfolded m_def] by simp
  have up: "fl64 (6 * sig) \<le> real_of_int m" by (simp add: m_def)
  have least: "m \<le> j" if "fl64 (6 * sig) \<le> real_of_int j" for j
    using that by (simp add: m_def ceiling_le)
  have "odd (autoKernelSize sig)" by (simp add: k)
  moreover have "fl64 (6 * sig) \<le> real_of_int (autoKernelSize sig)"
    using up by (simp add: k)
  moreover have "autoKernelSize sig \<le> j" if "odd j" "fl64 (6 * sig) \<le> real_of_int j" for j
  proof -
    have "m \<le> j" using least that(2) .
    moreover have "m \<noteq> j" if "even m" using that \<open>odd j\<close> by auto
    ultimately show ?thesis by (auto simp add: k)
  qed
  moreover have "0 \<le> autoKernelSize sig" using m0 by (simp add: k)
  ultimately show ?thesis
    by (simp add: gaussianConstructor_def)
qed

theorem auto_kernel_size_smallest_odd_witness:
  "(0::real) < 5254199565265579 / 2 ^ 52 \<and>
   \<lceil>fl64 (6 * (5254199565265579 / 2 ^ 52))\<rceil> < 2 ^ 31 \<and>
   (\<exists>g. gaussianConstructor single (5254199565265579 / 2 ^ 52) None = Inr g \<and>
        odd (kernelSize g) \<and>
        fl64 (6 * (5254199565265579 / 2 ^ 52)) \<le> real_of_int (kernelSize g) \<and>
        (\<forall>j. odd j \<and> fl64 (6 * (5254199565265579 / 2 ^ 52)) \<le> real_of_int j
             \<longrightarrow> kernelSize g \<le> j))"
  using auto_kernel_size_smallest_odd [of "5254199565265579 / 2 ^ 52" single]
  unfolding fl64_tie by simp

section \<open>Unreadable pixels\<close>

text \<open>
  Claim C9. When \<open>getImageData\<close> throws, the mean, median, geometric, harmonic,
  contraharmonic and Gaussian filters resolve with the blurred drawing; the min, max and
  midpoint filters reject with the error.
\<close>

theorem pixel_access_error_policy:
  assumes "getImageData img = Inl e"
  shows "(kind f \<in> {MeanFilter, MedianFilter, GeometricMeanFilter, HarmonicMeanFilter}
            \<or> (\<exists>q. kind f = ContraharmonicMeanFilter q) \<longrightarrow>
          applyFilter f img = Resolve (CssBlur (canvasWidth img) (canvasHeight img) 1)) \<and>
         gaussianApplyFilter g img
            = Resolve (CssBlur (canvasWidth img) (canvasHeight img) (sigma g)) \<and>
         (kind f \<in> {MinFilter, MaxFilter, MidpointFilter} \<longrightarrow> applyFilter f img = Reject e)"
  using assms
  by (auto simp add: applyFilter_def gaussianApplyFilter_def applySimpleFilter_def)

theorem pixel_access_error_policy_witness:
  "getImageData \<lparr>canvasWidth = 2, canvasHeight = 1, getImageData = Inl PixelAccessError\<rparr>
     = Inl PixelAccessError \<and>
   kind \<lparr>kernelSize = 3, radius = 1, kind = MedianFilter\<rparr>
     \<in> {MeanFilter, MedianFilter, GeometricMeanFilter, HarmonicMeanFilter} \<and>
   applyFilter \<lparr>kernelSize = 3, radius = 1, kind = MedianFilter\<rparr>
     \<lparr>canvasWidth = 2, canvasHeight = 1, getImageData = Inl PixelAccessError\<rparr>
     = Resolve (CssBlur 2 1 1) \<and>
   gaussianApplyFilter \<lparr>kernelSize = 1, radius = 0, sigma = 2, kernel = [Some 1]\<rparr>
     \<lparr>canvasWidth = 2, canvasHeight = 1, getImageData = Inl PixelAccessError\<rparr>
     = Resolve (CssBlur 2 1 2) \<and>
   kind \<lparr>kernelSize = 3, radius = 1, kind = MaxFilter\<rparr>
     \<in> {MinFilter, MaxFilter, MidpointFilter} \<and>
   applyFilter \<lparr>kernelSize = 3, radius = 1, kind = MaxFilter\<rparr>
     \<lparr>canvasWidth = 2, canvasHeight = 1, getImageData = Inl PixelAccessError\<rparr>
     = Reject PixelAccessError"
  using pixel_access_error_policy
          [of "\<lparr>canvasWidth = 2, canvasHeight = 1, getImageData = Inl PixelAccessError\<rparr>"
              PixelAccessError "\<lparr>kernelSize = 3, radius = 1, kind = MedianFilter\<rparr>"
              "\<lparr>kernelSize = 1, radius = 0, sigma = 2, kernel = [Some 1]\<rparr>"]
        pixel_access_error_policy
          [of "\<lparr>canvasWidth = 2, canvasHeight = 1, getImageData = Inl PixelAccessError\<rparr>"
              PixelAccessError "\<lparr>kernelSize = 3, radius = 1, kind = MaxFilter\<rparr>"
              "\<lparr>kernelSize = 1, radius = 0, sigma = 2, kernel = [Some 1]\<rparr>"]
  by simp

section \<open>The sweep writes every pixel once\<close>

lemma roundHalfEven_nat: "roundHalfEven (real n) = int n"
  by (simp add: roundHalfEven_def)

lemma toUint8Clamp_nat:
  assumes "n < 256"
  shows "toUint8Clamp (Some (real n)) = (word_of_nat n :: u8)"
proof -
  consider "n = 0" | "n = 255" | "0 < n" "n < 255"
    using assms by linarith
  then show ?thesis
  proof cases
    case 3
    then show ?thesis
      by (simp add: toUint8Clamp_def roundHalfEven_nat del: of_nat_less_numeral_iff)
  qed (simp_all add: toUint8Clamp_def)
qed

lemma toUint8Clamp_byte: "toUint8Clamp (Some (real (unat (v :: u8)))) = v"
proof -
  have "unat v < 256" using unsigned_less [of v] by simp
  then have "toUint8Clamp (Some (real (unat v))) = (word_of_nat (unat v) :: u8)"
    by (rule toUint8Clamp_nat)
  then show ?thesis by simp
qed

lemma rd_in_range:
  "i < length data \<Longrightarrow> rd data (int i) = Some (real (unat (data ! i)))"
  by (simp add: rd_def rdByte_def)

lemma length_writePixel [simp]:
  "length (writePixel calc od w h yx nd) = length nd"
  by (simp add: writePixel_def Let_def)

lemma length_fold_writePixel [simp]:
  "length (fold (writePixel calc od w h) ps nd) = length nd"
  by (induction ps arbitrary: nd) simp_all

lemma length_sweep [simp]: "length (sweep calc len od w h) = len"
  by (simp add: sweep_def)

lemma writePixel_nth_same:
  assumes "k < 4" "(y * w + x) * 4 + k < length nd"
  shows "writePixel calc od w h (y, x) nd ! ((y * w + x) * 4 + k) = written calc od w h y x k"
proof -
  from assms(1) consider "k = 0" | "k = 1" | "k = 2" | "k = 3" by linarith
  then show ?thesis
    using assms(2) by cases (simp_all add: writePixel_def written_def Let_def)
qed

lemma writePixel_nth_other:
  assumes "j div 4 \<noteq> y * w + x"
  shows "writePixel calc od w h (y, x) nd ! j = nd ! j"
proof -
  have "j \<noteq> (y * w + x) * 4 + k" if "k < 4" for k
    using assms that by auto
  from this [of 0] this [of 1] this [of 2] this [of 3] show ?thesis
    by (simp add: writePixel_def Let_def)
qed

lemma pixel_number_inj:
  fixes w :: nat
  assumes "x < w" "x' < w" "y * w + x = y' * w + x'"
  shows "y = y' \<and> x = x'"
proof -
  have "(y * w + x) div w = y" "(y' * w + x') div w = y'"
    using assms(1,2) by simp_all
  then have "y = y'" using assms(3) by simp
  then show ?thesis using assms(3) by simp
qed

lemma fold_writePixel_nth:
  assumes "\<forall>p \<in> set ps. snd p < w"
    and "(y, x) \<in> set ps" and "k < 4" and "(y * w + x) * 4 + k < length nd"
  shows "fold (writePixel calc od w h) ps nd ! ((y * w + x) * 4 + k) = written calc od w h y x k"
  using assms
proof (induction ps arbitrary: nd rule: rev_induct)
  case Nil
  then show ?case by simp
next
  case (snoc p ps)
  obtain y' x' where p: "p = (y', x')" by (cases p)
  let ?nd = "fold (writePixel calc od w h) ps nd"
  have len: "(y * w + x) * 4 + k < length ?nd" using snoc.prems(4) by simp
  show ?case
  proof (cases "y' * w + x' = y * w + x")
    case True
    have xw: "x < w" "x' < w" using snoc.prems(1,2) p by auto
    from pixel_number_inj [OF xw(2) xw(1) True] have "y' = y" "x' = x" by simp_all
    then show ?thesis
      using writePixel_nth_same [OF snoc.prems(3) len, of calc od h] by (simp add: p)
  next
    case False
    have xw: "x < w" "x' < w" using snoc.prems(1,2) p by auto
    have "(y, x) \<noteq> p" using False p by auto
    then have mem: "(y, x) \<in> set ps" using snoc.prems(2) by simp
    have "((y * w + x) * 4 + k) div 4 \<noteq> y' * w + x'"
      using False snoc.prems(3) by simp
    then have "writePixel calc od w h (y', x') ?nd ! ((y * w + x) * 4 + k) = ?nd ! ((y * w + x) * 4 + k)"
      by (rule writePixel_nth_other)
    also have "\<dots> = written calc od w h y x k"
      using snoc.IH [of nd] snoc.prems mem by simp
    finally show ?thesis by (simp add: p)
  qed
qed


lemma sweep_nth:
  assumes "y < h" "x < w" "k < 4" "(y * w + x) * 4 + k < len"
  shows "sweep calc len od w h ! ((y * w + x) * 4 + k) = written calc od w h y x k"
  unfolding sweep_def
  using assms by (intro fold_writePixel_nth) auto

lemma pixel_number_split:
  fixes w :: nat
  assumes "q < w * h"
  shows "q div w < h \<and> q mod w < w \<and> (q div w) * w + q mod w = q"
proof -
  have w: "0 < w" using assms by (cases w) auto
  have "q div w < h" using assms by (simp add: less_mult_imp_div_less mult.commute)
  then show ?thesis using w by simp
qed

lemma sweep_alpha:
  assumes "q < w * h" "length od = w * h * 4"
  shows "sweep calc (length od) od w h ! (4 * q + 3) = od ! (4 * q + 3)"
proof -
  from pixel_number_split [OF assms(1)]
  obtain y x where yx: "y < h" "x < w" "y * w + x = q" by blast
  have len: "(y * w + x) * 4 + 3 < length od" using assms yx by simp
  have "sweep calc (length od) od w h ! ((y * w + x) * 4 + 3) = written calc od w h y x 3"
    using yx len by (intro sweep_nth) simp_all
  also have "\<dots> = toUint8Clamp (rd od (int ((y * w + x) * 4 + 3)))"
    by (simp add: written_def)
  also have "\<dots> = od ! ((y * w + x) * 4 + 3)"
    using len by (simp only: rd_in_range toUint8Clamp_byte)
  finally show ?thesis unfolding yx(3) by (simp add: mult.commute)
qed

section \<open>Boundary policy\<close>

lemma validCoord_range: "0 < n \<Longrightarrow> 0 \<le> validCoord n c \<and> validCoord n c < n"
  by (simp add: validCoord_def Let_def)

lemma validCoord_inside: "0 \<le> c \<Longrightarrow> c < n \<Longrightarrow> validCoord n c = c"
  by (simp add: validCoord_def)

lemma corner_mean:
  "calculateMeanValues 1 (cornerImage 0 0) 0 0 3 3 = Rgb (Some 178) (Some 178) (Some 178)"
  "calculateMeanValues 1 (cornerImage 2 0) 2 0 3 3 = Rgb (Some 178) (Some 178) (Some 178)"
  "calculateMeanValues 1 (cornerImage 0 2) 0 2 3 3 = Rgb (Some 178) (Some 178) (Some 178)"
  "calculateMeanValues 1 (cornerImage 2 2) 2 2 3 3 = Rgb (Some 178) (Some 178) (Some 178)"
  by code_simp+

lemma corner_once:
  "count_list (samplePositions 1 0 0 3 3) 0 = 1"
  "count_list (samplePositions 1 2 0 3 3) 8 = 1"
  "count_list (samplePositions 1 0 2 3 3) 24 = 1"
  "count_list (samplePositions 1 2 2 3 3) 32 = 1"
  by code_simp+

lemma calculate_mean3:
  "calculate \<lparr>kernelSize = 3, radius = 1, kind = MeanFilter\<rparr> = calculateMeanValues 1"
  by (simp add: calculate_def)

text \<open>
  The second reflection tests the value the first one left, so a coordinate
  \<open>c \<le> -n\<close> is reflected twice before the clamp.
\<close>

lemma validCoord_cases:
  "validCoord n c =
     max 0 (min (n - 1)
       (if c < 0 \<and> - c < n then \<bar>c\<bar>
        else if c < 0 then n - 1 - (\<bar>c\<bar> - n + 1)
        else if n \<le> c then n - 1 - (c - n + 1)
        else c))"
  by (simp add: validCoord_def Let_def)

lemma validCoord_boundaryPolicy: "validCoord n c = boundaryPolicy n c"
  by (simp add: validCoord_def boundaryPolicy_def clampInto_def reflectAbove_def
        reflectBelow_def Let_def)

lemma cornerImage_values:
  "cornerImage 0 0 = [0, 0, 0, 255, 200, 200, 200, 255, 200, 200, 200, 255,
                      200, 200, 200, 255, 200, 200, 200, 255, 200, 200, 200, 255,
                      200, 200, 200, 255, 200, 200, 200, 255, 200, 200, 200, 255]"
  "cornerImage 2 0 = [200, 200, 200, 255, 200, 200, 200, 255, 0, 0, 0, 255,
                      200, 200, 200, 255, 200, 200, 200, 255, 200, 200, 200, 255,
                      200, 200, 200, 255, 200, 200, 200, 255, 200, 200, 200, 255]"
  "cornerImage 0 2 = [200, 200, 200, 255, 200, 200, 200, 255, 200, 200, 200, 255,
                      200, 200, 200, 255, 200, 200, 200, 255, 200, 200, 200, 255,
                      0, 0, 0, 255, 200, 200, 200, 255, 200, 200, 200, 255]"
  "cornerImage 2 2 = [200, 200, 200, 255, 200, 200, 200, 255, 200, 200, 200, 255,
                      200, 200, 200, 255, 200, 200, 200, 255, 200, 200, 200, 255,
                      200, 200, 200, 255, 200, 200, 200, 255, 0, 0, 0, 255]"
  by (simp_all add: cornerImage_def upt_rec)

lemma reflectedNeighbourhood_values:
  "reflectedNeighbourhood 3 3 0 0 = [16, 12, 16, 4, 0, 4, 16, 12, 16]"
  "reflectedNeighbourhood 3 3 2 0 = [16, 20, 16, 4, 8, 4, 16, 20, 16]"
  "reflectedNeighbourhood 3 3 0 2 = [16, 12, 16, 28, 24, 28, 16, 12, 16]"
  "reflectedNeighbourhood 3 3 2 2 = [16, 20, 16, 28, 32, 28, 16, 20, 16]"
  by (simp_all add: reflectedNeighbourhood_def boundaryPolicy_def clampInto_def
        reflectAbove_def reflectBelow_def)

lemma corner_neighbourhood:
  "samplePositions 1 0 0 3 3 = reflectedNeighbourhood 3 3 0 0"
  "samplePositions 1 2 0 3 3 = reflectedNeighbourhood 3 3 2 0"
  "samplePositions 1 0 2 3 3 = reflectedNeighbourhood 3 3 0 2"
  "samplePositions 1 2 2 3 3 = reflectedNeighbourhood 3 3 2 2"
  by (simp_all add: reflectedNeighbourhood_values samplePositions_def validCoord_def upto_rec1)

lemma corner_literal:
  "literalMean (cornerImage 0 0) 0 0 0 = Some 178"
  "literalMean (cornerImage 0 0) 0 0 1 = Some 178"
  "literalMean (cornerImage 0 0) 0 0 2 = Some 178"
  "literalMean (cornerImage 2 0) 2 0 0 = Some 178"
  "literalMean (cornerImage 2 0) 2 0 1 = Some 178"
  "literalMean (cornerImage 2 0) 2 0 2 = Some 178"
  "literalMean (cornerImage 0 2) 0 2 0 = Some 178"
  "literalMean (cornerImage 0 2) 0 2 1 = Some 178"
  "literalMean (cornerImage 0 2) 0 2 2 = Some 178"
  "literalMean (cornerImage 2 2) 2 2 0 = Some 178"
  "literalMean (cornerImage 2 2) 2 2 1 = Some 178"
  "literalMean (cornerImage 2 2) 2 2 2 = Some 178"
  by (simp_all add: literalMean_def sampleAt_def reflectedNeighbourhood_values cornerImage_values
        js_round_def)

text \<open>
  Claim C3. The coordinate fix-up of the aggregators is the policy of the specification:
  a coordinate below 0 goes to \<open>|c|\<close>, a coordinate from \<open>n\<close> on goes to
  \<open>n - 1 - (c - n + 1)\<close>, and the result is clamped into \<open>[0, n - 1]\<close>. On the
  3 by 3 image that is 200 everywhere except for a 0 in one corner, the mean filter of
  size 3 at that corner yields, on every channel and for each of the four corners, the
  rounded ninth of the sum over the literal reflected neighbourhood, which is
  \<open>178 = round (1600 / 9)\<close>: the corner pixel is sampled exactly once among the nine
  samples (clamping at the edge would sample it four times).
\<close>

theorem boundary_policy_reflects:
  "validCoord n c = clampInto n (reflectAbove n (reflectBelow c)) \<and>
   (\<exists>f. constructor MeanFilter 3 = Inr f \<and>
      calculate f (cornerImage 0 0) 0 0 3 3
        = Rgb (literalMean (cornerImage 0 0) 0 0 0) (literalMean (cornerImage 0 0) 0 0 1)
              (literalMean (cornerImage 0 0) 0 0 2) \<and>
      calculate f (cornerImage 2 0) 2 0 3 3
        = Rgb (literalMean (cornerImage 2 0) 2 0 0) (literalMean (cornerImage 2 0) 2 0 1)
              (literalMean (cornerImage 2 0) 2 0 2) \<and>
      calculate f (cornerImage 0 2) 0 2 3 3
        = Rgb (literalMean (cornerImage 0 2) 0 2 0) (literalMean (cornerImage 0 2) 0 2 1)
              (literalMean (cornerImage 0 2) 0 2 2) \<and>
      calculate f (cornerImage 2 2) 2 2 3 3
        = Rgb (literalMean (cornerImage 2 2) 2 2 0) (literalMean (cornerImage 2 2) 2 2 1)
              (literalMean (cornerImage 2 2) 2 2 2) \<and>
      calculate f (cornerImage 0 0) 0 0 3 3 = Rgb (Some 178) (Some 178) (Some 178) \<and>
      calculate f (cornerImage 2 0) 2 0 3 3 = Rgb (Some 178) (Some 178) (Some 178) \<and>
      calculate f (cornerImage 0 2) 0 2 3 3 = Rgb (Some 178) (Some 178) (Some 178) \<and>
      calculate f (cornerImage 2 2) 2 2 3 3 = Rgb (Some 178) (Some 178) (Some 178)) \<and>
   samplePositions 1 0 0 3 3 = reflectedNeighbourhood 3 3 0 0 \<and>
   samplePositions 1 2 0 3 3 = reflectedNeighbourhood 3 3 2 0 \<and>
   samplePositions 1 0 2 3 3 = reflectedNeighbourhood 3 3 0 2 \<and>
   samplePositions 1 2 2 3 3 = reflectedNeighbourhood 3 3 2 2 \<and>
   count_list (samplePositions 1 0 0 3 3) 0 = 1 \<and>
   count_list (samplePositions 1 2 0 3 3) 8 = 1 \<and>
   count_list (samplePositions 1 0 2 3 3) 24 = 1 \<and>
   count_list (samplePositions 1 2 2 3 3) 32 = 1"
proof -
  have "constructor MeanFilter 3 = Inr \<lparr>kernelSize = 3, radius = 1, kind = MeanFilter\<rparr>"
    by (simp add: constructor_def)
  moreover have "validCoord n c = clampInto n (reflectAbove n (reflectBelow c))"
    by (simp only: validCoord_boundaryPolicy boundaryPolicy_def)
  ultimately show ?thesis
    by (simp only: calculate_mean3 corner_mean corner_once corner_literal
          simp_thms sum.inject ex_simps)
       (simp only: corner_neighbourhood simp_thms)
qed

section \<open>Alpha and shape\<close>

lemma all_less_two: "(\<forall>q<2::nat. P q) \<longleftrightarrow> P 0 \<and> P 1"
  by (auto simp add: less_2_cases_iff)

lemma processImageData_alpha:
  assumes "q < w * h" "length data = w * h * 4"
  shows "processImageData f data data w h ! (4 * q + 3) = data ! (4 * q + 3)"
  unfolding processImageData_def using assms by (rule sweep_alpha)

lemma gaussian_passes_alpha:
  assumes "q < w * h" "length data = w * h * 4"
  shows "applyVerticalConvolution g (applyHorizontalConvolution g data w h) w h ! (4 * q + 3)
           = data ! (4 * q + 3)"
proof -
  let ?hd = "applyHorizontalConvolution g data w h"
  have len: "length ?hd = w * h * 4"
    by (simp add: applyHorizontalConvolution_def assms(2))
  have "applyVerticalConvolution g ?hd w h ! (4 * q + 3) = ?hd ! (4 * q + 3)"
    unfolding applyVerticalConvolution_def using assms(1) len by (rule sweep_alpha)
  also have "\<dots> = data ! (4 * q + 3)"
    unfolding applyHorizontalConvolution_def using assms by (rule sweep_alpha)
  finally show ?thesis .
qed

text \<open>
  Claim C1. When the pixels can be read, every aggregator and the Gaussian filter resolve
  with a canvas of the input's width and height whose array has the input's length, and at
  every pixel the alpha byte of the output is the alpha byte of the input.
\<close>

theorem alpha_and_shape_preserved:
  assumes "getImageData img = Inr data"
    and "length data = canvasWidth img * canvasHeight img * 4"
  shows "(\<exists>out. applyFilter f img = Resolve (PutImageData (canvasWidth img) (canvasHeight img) out) \<and>
            length out = length data \<and>
            (\<forall>q < canvasWidth img * canvasHeight img. out ! (4 * q + 3) = data ! (4 * q + 3))) \<and>
         (\<exists>out. gaussianApplyFilter g img = Resolve (PutImageData (canvasWidth img) (canvasHeight img) out) \<and>
            length out = length data \<and>
            (\<forall>q < canvasWidth img * canvasHeight img. out ! (4 * q + 3) = data ! (4 * q + 3)))"
proof (intro conjI)
  show "\<exists>out. applyFilter f img = Resolve (PutImageData (canvasWidth img) (canvasHeight img) out) \<and>
            length out = length data \<and>
            (\<forall>q < canvasWidth img * canvasHeight img. out ! (4 * q + 3) = data ! (4 * q + 3))"
    using assms processImageData_alpha [of _ "canvasWidth img" "canvasHeight img" data f]
    by (simp add: applyFilter_def processImageData_def)
  show "\<exists>out. gaussianApplyFilter g img = Resolve (PutImageData (canvasWidth img) (canvasHeight img) out) \<and>
            length out = length data \<and>
            (\<forall>q < canvasWidth img * canvasHeight img. out ! (4 * q + 3) = data ! (4 * q + 3))"
    using assms gaussian_passes_alpha [of _ "canvasWidth img" "canvasHeight img" data g]
    by (simp add: gaussianApplyFilter_def Let_def applyVerticalConvolution_def
          applyHorizontalConvolution_def)
qed

theorem alpha_and_shape_preserved_witness:
  "getImageData \<lparr>canvasWidth = 2, canvasHeight = 1,
      getImageData = Inr [10, 20, 30, 255, 40, 50, 60, 128]\<rparr>
     = Inr [10, 20, 30, 255, 40, 50, 60, 128] \<and>
   length [10, 20, 30, 255, 40, 50, 60, 128 :: u8] = 2 * 1 * 4 \<and>
   (\<exists>out. applyFilter \<lparr>kernelSize = 3, radius = 1, kind = MedianFilter\<rparr>
             \<lparr>canvasWidth = 2, canvasHeight = 1,
                getImageData = Inr [10, 20, 30, 255, 40, 50, 60, 128]\<rparr>
             = Resolve (PutImageData 2 1 out) \<and>
          length out = length [10, 20, 30, 255, 40, 50, 60, 128 :: u8] \<and>
          out ! 3 = 255 \<and> out ! 7 = 128) \<and>
   (\<exists>out. gaussianApplyFilter \<lparr>kernelSize = 1, radius = 0, sigma = 2, kernel = [Some 1]\<rparr>
             \<lparr>canvasWidth = 2, canvasHeight = 1,
                getImageData = Inr [10, 20, 30, 255, 40, 50, 60, 128]\<rparr>
             = Resolve (PutImageData 2 1 out) \<and>
          length out = length [10, 20, 30, 255, 40, 50, 60, 128 :: u8] \<and>
          out ! 3 = 255 \<and> out ! 7 = 128)"
  using alpha_and_shape_preserved
          [of "\<lparr>canvasWidth = 2, canvasHeight = 1,
                 getImageData = Inr [10, 20, 30, 255, 40, 50, 60, 128]\<rparr>"
              "[10, 20, 30, 255, 40, 50, 60, 128]"
              "\<lparr>kernelSize = 3, radius = 1, kind = MedianFilter\<rparr>"
              "\<lparr>kernelSize = 1, radius = 0, sigma = 2, kernel = [Some 1]\<rparr>"]
  by (simp add: all_less_two)

section \<open>Samples\<close>

lemma samplePositions_length:
  "length (samplePositions r cx cy w h) = nat (2 * r + 1) * nat (2 * r + 1)"
  by (simp add: samplePositions_def length_concat comp_def sum_list_triv)

lemma samplePositions_nonempty: "0 \<le> r \<Longrightarrow> samplePositions r cx cy w h \<noteq> []"
  using samplePositions_length [of r cx cy w h] by auto

lemma samplePositions_inside:
  assumes "p \<in> set (samplePositions r cx cy (int w) (int h))" "0 < w" "0 < h"
  shows "\<exists>y x. y < h \<and> x < w \<and> p = int ((y * w + x) * 4)"
proof -
  from assms(1) obtain dy dx where
    p: "p = (validCoord (int h) (cy + dy) * int w + validCoord (int w) (cx + dx)) * 4"
    by (auto simp add: samplePositions_def)
  define y where "y = nat (validCoord (int h) (cy + dy))"
  define x where "x = nat (validCoord (int w) (cx + dx))"
  have "y < h" "int y = validCoord (int h) (cy + dy)"
    using validCoord_range [of "int h" "cy + dy"] assms(3) by (simp_all add: y_def nat_less_iff)
  moreover have "x < w" "int x = validCoord (int w) (cx + dx)"
    using validCoord_range [of "int w" "cx + dx"] assms(2) by (simp_all add: x_def nat_less_iff)
  ultimately show ?thesis using p by (intro exI [of _ y] exI [of _ x]) simp
qed

lemma pixel_offset_bound:
  fixes w h :: nat
  assumes "y < h" "x < w" "k < 4"
  shows "(y * w + x) * 4 + k < w * h * 4"
proof -
  have "y * w + x < (y + 1) * w" using assms(2) by simp
  also have "\<dots> \<le> h * w" using assms(1) by (intro mult_le_mono1) simp
  finally have "y * w + x < w * h" by (simp add: mult.commute)
  then show ?thesis using assms(3) by simp
qed

lemma rd_sample:
  assumes "p \<in> set (samplePositions r cx cy (int w) (int h))" "0 < w" "0 < h"
    and "length data = w * h * 4" "ch \<in> {0, 1, 2}"
  shows "rd data (p + ch) = Some (real (sampleAt data ch p))"
    and "rdByte data (p + ch) = Some (data ! nat (p + ch))"
proof -
  from samplePositions_inside [OF assms(1-3)]
  obtain y x where yx: "y < h" "x < w" "p = int ((y * w + x) * 4)" by blast
  from assms(5) obtain k :: nat where k: "ch = int k" "k < 4" 
    by (auto intro: that [of 0] that [of 1] that [of 2])
  define i where "i = (y * w + x) * 4 + k"
  have i: "i < length data"
    using pixel_offset_bound [OF yx(1,2) k(2)] assms(4) by (simp add: i_def)
  have pi: "p + ch = int i"
    by (simp add: yx(3) k(1) i_def)
  show "rdByte data (p + ch) = Some (data ! nat (p + ch))"
    unfolding pi using i by (simp add: rdByte_def)
  then show "rd data (p + ch) = Some (real (sampleAt data ch p))"
    by (simp add: rd_def sampleAt_def)
qed

lemma sampleAt_le: "sampleAt data ch p \<le> 255"
proof -
  have "unat (data ! nat (p + ch)) < 2 ^ 8" using unsigned_less [of "data ! nat (p + ch)"] by simp
  then show ?thesis by (simp add: sampleAt_def)
qed

section \<open>Folds over the samples\<close>

lemma fold_js_add:
  assumes "\<forall>p \<in> set ps. F p = Some (G p)"
  shows "fold (\<lambda>p s. js_add s (F p)) ps (Some a) = Some (a + sum_list (map G ps))"
  using assms
  by (induction ps arbitrary: a) (simp_all add: js_add_def js_lift2_def add.assoc)

lemma sum_list_upper:
  fixes f :: "'a \<Rightarrow> real"
  assumes "\<forall>x \<in> set xs. f x \<le> B"
  shows "sum_list (map f xs) \<le> real (length xs) * B"
  using assms by (induction xs) (simp_all add: algebra_simps)

lemma sum_list_lower:
  fixes f :: "'a \<Rightarrow> real"
  assumes "\<forall>x \<in> set xs. B \<le> f x"
  shows "real (length xs) * B \<le> sum_list (map f xs)"
  using assms by (induction xs) (simp_all add: algebra_simps)

lemma byteValued_round:
  assumes "0 \<le> x" "x < 255 + 1 / 2"
  shows "byteValued (js_round (Some x))"
proof -
  have "0 \<le> \<lfloor>x + 1 / 2\<rfloor>" using assms(1) by simp
  moreover have "\<lfloor>x + 1 / 2\<rfloor> < 256" using assms(2) by (simp add: floor_less_iff)
  ultimately show ?thesis
    by (simp add: byteValued_def js_round_def)
qed

section \<open>Every aggregator yields a byte\<close>

lemma byteValued_of_int: "0 \<le> n \<Longrightarrow> n \<le> 255 \<Longrightarrow> byteValued (Some (of_int n))"
  by (simp add: byteValued_def)

lemma byteValued_round_le:
  assumes "0 \<le> x" "x \<le> 255 + epsilon"
  shows "byteValued (js_round (Some x))"
proof -
  have "epsilon < 1 / 2" by (simp add: epsilon_def)
  then have "x < 255 + 1 / 2" using assms(2) by linarith
  with assms(1) show ?thesis by (rule byteValued_round)
qed

lemma epsilon_pos: "0 < epsilon"
  by (simp add: epsilon_def)

text \<open>
  In the lemmas below \<open>ps\<close> is a list of sample positions, all inside the array, and
  \<open>g p\<close> is the byte read at position \<open>p\<close> on the channel at hand.
\<close>

lemma mean_channel:
  assumes rd: "\<forall>p \<in> set ps. F p = Some (real (g p))" and g: "\<forall>p. g p \<le> (255::nat)"
    and ne: "ps \<noteq> []"
  shows "js_div (fold (\<lambda>p s. js_add s (F p)) ps (Some 0)) (Some (real (length ps)))
           = Some (sum_list (map (\<lambda>p. real (g p)) ps) / real (length ps))"
    and "0 \<le> sum_list (map (\<lambda>p. real (g p)) ps) / real (length ps)"
    and "sum_list (map (\<lambda>p. real (g p)) ps) / real (length ps) \<le> 255"
proof -
  let ?S = "sum_list (map (\<lambda>p. real (g p)) ps)"
  have fold: "fold (\<lambda>p s. js_add s (F p)) ps (Some 0) = Some ?S"
    using fold_js_add [OF rd, of 0] by simp
  have up: "?S \<le> real (length ps) * 255"
    by (intro sum_list_upper) (simp add: g)
  have lo: "0 \<le> ?S"
    using sum_list_lower [of ps 0 "\<lambda>p. real (g p)"] by simp
  have n: "0 < real (length ps)" using ne by simp
  show "?S / real (length ps) \<le> 255"
    using up n by (simp add: pos_divide_le_eq mult.commute)
  show "0 \<le> ?S / real (length ps)" using lo n by simp
  show "js_div (fold (\<lambda>p s. js_add s (F p)) ps (Some 0)) (Some (real (length ps)))
           = Some (?S / real (length ps))"
    using n by (simp add: fold js_div_def)
qed

lemma mean_channel_byte:
  assumes "\<forall>p \<in> set ps. F p = Some (real (g p))" and "\<forall>p. g p \<le> (255::nat)" and "ps \<noteq> []"
  shows "byteValued (js_round (js_div (fold (\<lambda>p s. js_add s (F p)) ps (Some 0))
           (Some (real (length ps)))))"
  unfolding mean_channel(1) [OF assms]
  using mean_channel(2,3) [OF assms] epsilon_pos by (intro byteValued_round_le) simp_all

text \<open>Minimum, maximum and midpoint.\<close>

lemma fold_js_min:
  assumes "\<forall>p \<in> set ps. F p = Some (real (g p))"
  shows "fold (\<lambda>p m. js_min m (F p)) ps (Some (real a)) = Some (real (fold (\<lambda>p m. min m (g p)) ps a))"
  using assms
  by (induction ps arbitrary: a) (simp_all add: js_min_def js_lift2_def flip: of_nat_min)

lemma fold_js_max:
  assumes "\<forall>p \<in> set ps. F p = Some (real (g p))"
  shows "fold (\<lambda>p m. js_max m (F p)) ps (Some (real a)) = Some (real (fold (\<lambda>p m. max m (g p)) ps a))"
  using assms
  by (induction ps arbitrary: a) (simp_all add: js_max_def js_lift2_def flip: of_nat_max)

lemma fold_min_le: "fold (\<lambda>p m. min m (g p)) ps a \<le> (a::nat)"
proof (induction ps arbitrary: a)
  case (Cons p ps)
  have "fold (\<lambda>p m. min m (g p)) ps (min a (g p)) \<le> min a (g p)" by (rule Cons.IH)
  then show ?case by simp
qed simp

lemma fold_max_le:
  assumes "\<forall>p. g p \<le> B" "a \<le> B"
  shows "fold (\<lambda>p m. max m (g p)) ps a \<le> (B::nat)"
  using assms by (induction ps arbitrary: a) simp_all

lemma min_channel_byte:
  assumes "\<forall>p \<in> set ps. F p = Some (real (g p))"
  shows "byteValued (fold (\<lambda>p m. js_min m (F p)) ps (Some 255))"
proof -
  have "fold (\<lambda>p m. js_min m (F p)) ps (Some (real 255))
          = Some (real (fold (\<lambda>p m. min m (g p)) ps 255))"
    using assms by (rule fold_js_min)
  moreover have "byteValued (Some (real_of_int (int (fold (\<lambda>p m. min m (g p)) ps 255))))"
    using fold_min_le [of g ps 255] by (intro byteValued_of_int) simp_all
  ultimately show ?thesis by simp
qed

lemma max_channel_byte:
  assumes "\<forall>p \<in> set ps. F p = Some (real (g p))" and "\<forall>p. g p \<le> (255::nat)"
  shows "byteValued (fold (\<lambda>p m. js_max m (F p)) ps (Some 0))"
proof -
  have "fold (\<lambda>p m. js_max m (F p)) ps (Some (real 0))
          = Some (real (fold (\<lambda>p m. max m (g p)) ps 0))"
    using assms(1) by (rule fold_js_max)
  moreover have "byteValued (Some (real_of_int (int (fold (\<lambda>p m. max m (g p)) ps 0))))"
    using fold_max_le [OF assms(2), of 0 ps] by (intro byteValued_of_int) simp_all
  ultimately show ?thesis by simp
qed

lemma midpoint_channel_byte:
  assumes "\<forall>p \<in> set ps. F p = Some (real (g p))" and "\<forall>p. g p \<le> (255::nat)"
  shows "byteValued (js_round (js_div
           (js_add (fold (\<lambda>p m. js_min m (F p)) ps (Some 255))
                   (fold (\<lambda>p m. js_max m (F p)) ps (Some 0)))
           (Some 2)))"
proof -
  let ?mn = "fold (\<lambda>p m. min m (g p)) ps 255" and ?mx = "fold (\<lambda>p m. max m (g p)) ps 0"
  have mn: "fold (\<lambda>p m. js_min m (F p)) ps (Some 255) = Some (real ?mn)"
    using fold_js_min [OF assms(1), of 255] by simp
  have mx: "fold (\<lambda>p m. js_max m (F p)) ps (Some 0) = Some (real ?mx)"
    using fold_js_max [OF assms(1), of 0] by simp
  have "?mn \<le> 255" by (rule fold_min_le)
  moreover have "?mx \<le> 255" using fold_max_le [OF assms(2), of 0 ps] by simp
  ultimately have "(real ?mn + real ?mx) / 2 \<le> 255 + epsilon"
    using epsilon_pos by simp
  moreover have "0 \<le> (real ?mn + real ?mx) / 2" by simp
  ultimately have "byteValued (js_round (Some ((real ?mn + real ?mx) / 2)))"
    by (intro byteValued_round_le)
  then show ?thesis by (simp add: mn mx js_add_def js_lift2_def js_div_def)
qed

text \<open>Median.\<close>

lemma findMedianLoop_range:
  assumes "0 \<le> i" "i + int (length hist) \<le> 256"
  shows "0 \<le> findMedianLoop m hist i acc \<and> findMedianLoop m hist i acc \<le> 255"
  using assms by (induction hist arbitrary: i acc) auto

lemma length_histIncr [simp]: "length (histIncr s hist) = length hist"
  by (simp add: histIncr_def split: option.split)

lemma length_fold_histIncr [simp]:
  "length (fold (\<lambda>p hist. histIncr (S p) hist) ps hist) = length hist"
  by (induction ps arbitrary: hist) simp_all

lemma median_channel_byte:
  "byteValued (Some (of_int (findMedian m
      (fold (\<lambda>p hist. histIncr (S p) hist) ps createHistogram))))"
  unfolding findMedian_def
  using findMedianLoop_range [of 0 "fold (\<lambda>p hist. histIncr (S p) hist) ps createHistogram" m 0]
  by (intro byteValued_of_int) (simp_all add: createHistogram_def)

text \<open>Geometric and harmonic mean.\<close>

lemma geometric_channel:
  assumes rd: "\<forall>p \<in> set ps. F p = Some (real (g p))" and g: "\<forall>p. g p \<le> (255::nat)"
    and ne: "ps \<noteq> []"
  shows "js_exp (js_div
           (fold (\<lambda>p s. js_add s (js_log (js_add (F p) (Some epsilon)))) ps (Some 0))
           (Some (real (length ps))))
         = Some (exp (sum_list (map (\<lambda>p. ln (real (g p) + epsilon)) ps) / real (length ps)))"
    and "exp (sum_list (map (\<lambda>p. ln (real (g p) + epsilon)) ps) / real (length ps))
           \<le> 255 + epsilon"
proof -
  let ?L = "sum_list (map (\<lambda>p. ln (real (g p) + epsilon)) ps)"
  have "\<forall>p \<in> set ps. js_log (js_add (F p) (Some epsilon)) = Some (ln (real (g p) + epsilon))"
    using rd epsilon_pos by (simp add: js_log_def js_add_def js_lift2_def add_nonneg_pos)
  from fold_js_add [OF this, of 0]
  have fold: "fold (\<lambda>p s. js_add s (js_log (js_add (F p) (Some epsilon)))) ps (Some 0) = Some ?L"
    by simp
  have n: "0 < real (length ps)" using ne by simp
  show "js_exp (js_div
           (fold (\<lambda>p s. js_add s (js_log (js_add (F p) (Some epsilon)))) ps (Some 0))
           (Some (real (length ps)))) = Some (exp (?L / real (length ps)))"
    using n by (simp add: fold js_div_def js_exp_def)
  have "ln (real (g p) + epsilon) \<le> ln (255 + epsilon)" for p
    using g [rule_format, of p] epsilon_pos by (simp add: add_nonneg_pos)
  then have "?L \<le> real (length ps) * ln (255 + epsilon)"
    by (intro sum_list_upper) simp
  then have "?L / real (length ps) \<le> ln (255 + epsilon)"
    using n by (simp add: pos_divide_le_eq mult.commute)
  then have "exp (?L / real (length ps)) \<le> exp (ln (255 + epsilon))"
    by simp
  also have "\<dots> = 255 + epsilon" using epsilon_pos by simp
  finally show "exp (?L / real (length ps)) \<le> 255 + epsilon" .
qed

lemma geometric_channel_byte:
  assumes "\<forall>p \<in> set ps. F p = Some (real (g p))" and "\<forall>p. g p \<le> (255::nat)" and "ps \<noteq> []"
  shows "byteValued (js_round (js_exp (js_div
           (fold (\<lambda>p s. js_add s (js_log (js_add (F p) (Some epsilon)))) ps (Some 0))
           (Some (real (length ps))))))"
  unfolding geometric_channel(1) [OF assms]
  using geometric_channel(2) [OF assms] by (intro byteValued_round_le) simp_all

lemma harmonic_channel:
  assumes rd: "\<forall>p \<in> set ps. F p = Some (real (g p))" and g: "\<forall>p. g p \<le> (255::nat)"
    and ne: "ps \<noteq> []"
  shows "js_div (Some (real (length ps)))
           (fold (\<lambda>p s. js_add s (js_div (Some 1) (js_add (F p) (Some epsilon)))) ps (Some 0))
         = Some (real (length ps) / sum_list (map (\<lambda>p. 1 / (real (g p) + epsilon)) ps))"
    and "0 < sum_list (map (\<lambda>p. 1 / (real (g p) + epsilon)) ps)"
    and "real (length ps) / sum_list (map (\<lambda>p. 1 / (real (g p) + epsilon)) ps) \<le> 255 + epsilon"
proof -
  let ?T = "sum_list (map (\<lambda>p. 1 / (real (g p) + epsilon)) ps)"
  have pos: "0 < real (g p) + epsilon" for p
    using epsilon_pos by (simp add: add_nonneg_pos)
  have "\<forall>p \<in> set ps. js_div (Some 1) (js_add (F p) (Some epsilon)) = Some (1 / (real (g p) + epsilon))"
    using rd pos by (simp add: js_div_def js_add_def js_lift2_def less_imp_neq [THEN not_sym])
  from fold_js_add [OF this, of 0]
  have fold: "fold (\<lambda>p s. js_add s (js_div (Some 1) (js_add (F p) (Some epsilon)))) ps (Some 0)
                = Some ?T"
    by simp
  have n: "0 < real (length ps)" using ne by simp
  have "1 / (255 + epsilon) \<le> 1 / (real (g p) + epsilon)" for p
    using g [rule_format, of p] pos [of p] by (intro divide_left_mono) simp_all
  then have low: "real (length ps) * (1 / (255 + epsilon)) \<le> ?T"
    by (intro sum_list_lower) simp
  have "0 < real (length ps) * (1 / (255 + epsilon))"
    using n epsilon_pos by (simp add: add_pos_pos)
  with low show T: "0 < ?T" by linarith
  show "js_div (Some (real (length ps)))
           (fold (\<lambda>p s. js_add s (js_div (Some 1) (js_add (F p) (Some epsilon)))) ps (Some 0))
         = Some (real (length ps) / ?T)"
    unfolding fold using T by (simp add: js_div_def)
  have "real (length ps) \<le> ?T * (255 + epsilon)"
    using low epsilon_pos by (simp add: field_simps add_pos_pos)
  then show "real (length ps) / ?T \<le> 255 + epsilon"
    using T by (simp add: pos_divide_le_eq mult.commute)
qed

lemma harmonic_channel_byte:
  assumes "\<forall>p \<in> set ps. F p = Some (real (g p))" and "\<forall>p. g p \<le> (255::nat)" and "ps \<noteq> []"
  shows "byteValued (js_round (js_div (Some (real (length ps)))
           (fold (\<lambda>p s. js_add s (js_div (Some 1) (js_add (F p) (Some epsilon)))) ps (Some 0))))"
  unfolding harmonic_channel(1) [OF assms]
  using harmonic_channel(2,3) [OF assms] by (intro byteValued_round_le) simp_all

text \<open>Contraharmonic mean: the two power sums, and the explicit clamp.\<close>

lemma power_sum:
  assumes rd: "\<forall>p \<in> set ps. F p = Some (real (g p))"
  shows "fold (\<lambda>p s. js_add s (js_pow (js_add (F p) (Some epsilon)) q)) ps (Some 0)
           = Some (sum_list (map (\<lambda>p. (real (g p) + epsilon) powr q) ps))"
proof -
  have "\<forall>p \<in> set ps. js_pow (js_add (F p) (Some epsilon)) q = Some ((real (g p) + epsilon) powr q)"
    using rd epsilon_pos by (simp add: js_pow_def js_add_def js_lift2_def add_nonneg_pos)
  from fold_js_add [OF this, of 0] show ?thesis by simp
qed

lemma power_sum_nonneg: "0 \<le> sum_list (map (\<lambda>p. (real (g p) + epsilon) powr q) ps)"
  using sum_list_lower [of ps 0 "\<lambda>p. (real (g p) + epsilon) powr q"] by simp

lemma contraharmonic_channel:
  assumes "\<forall>p \<in> set ps. F p = Some (real (g p))"
  shows "js_div
           (fold (\<lambda>p s. js_add s (js_pow (js_add (F p) (Some epsilon)) (q + 1))) ps (Some 0))
           (js_add (fold (\<lambda>p s. js_add s (js_pow (js_add (F p) (Some epsilon)) q)) ps (Some 0))
              (Some epsilon))
         = Some (sum_list (map (\<lambda>p. (real (g p) + epsilon) powr (q + 1)) ps) /
                 (sum_list (map (\<lambda>p. (real (g p) + epsilon) powr q) ps) + epsilon))"
proof -
  have "sum_list (map (\<lambda>p. (real (g p) + epsilon) powr q) ps) + epsilon \<noteq> 0"
    using power_sum_nonneg [of g q ps] epsilon_pos by linarith
  then show ?thesis
    unfolding power_sum [OF assms] by (simp add: js_div_def js_add_def js_lift2_def)
qed

lemma constructor_Inr:
  assumes "constructor c ksize = Inr f"
  shows "odd ksize" "f = \<lparr>kernelSize = ksize, radius = ksize div 2, kind = c\<rparr>"
  using assms by (auto simp add: constructor_def split: if_splits)

lemma channel_byte:
  fixes ch :: int
  assumes c: "constructor c ksize = Inr f" and k: "0 < ksize"
    and seven: "c \<in> {MeanFilter, MedianFilter, MinFilter, MaxFilter, MidpointFilter,
                       GeometricMeanFilter, HarmonicMeanFilter}"
    and w: "0 < w" and h: "0 < h" and len: "length data = w * h * 4"
    and ch: "ch \<in> {0, 1, 2}"
  shows "byteValued (case calculate f data cx cy (int w) (int h) of
            Rgb vr vg vb \<Rightarrow> if ch = 0 then vr else if ch = 1 then vg else vb)"
proof -
  define ps where "ps = samplePositions (ksize div 2) cx cy (int w) (int h)"
  have f: "kind f = c" "radius f = ksize div 2" "kernelSize f = ksize"
    using constructor_Inr(2) [OF c] by simp_all
  have "0 \<le> ksize div 2" using k by simp
  then have ne: "ps \<noteq> []" unfolding ps_def by (rule samplePositions_nonempty)
  have rd: "\<forall>p \<in> set ps. rd data (p + ch) = Some (real (sampleAt data ch p))"
    using rd_sample(1) [OF _ w h len ch] unfolding ps_def by blast
  have g: "\<forall>p. sampleAt data ch p \<le> 255" by (simp add: sampleAt_le)
  note facts = rd g ne
  show ?thesis
  proof (cases c)
    case MeanFilter
    then show ?thesis
      using mean_channel_byte [OF facts] ch
      by (auto simp add: calculate_def f calculateMeanValues_def perChannel_def Let_def
            ps_def [symmetric])
  next
    case MedianFilter
    then show ?thesis
      using median_channel_byte [of "ksize * ksize div 2 + 1" "\<lambda>p. rdByte data (p + ch)" ps] ch
      by (auto simp add: calculate_def f calculateMedianValues_def perChannel_def Let_def
            ps_def [symmetric])
  next
    case MinFilter
    then show ?thesis
      using min_channel_byte [OF rd] ch
      by (auto simp add: calculate_def f calculateMinValues_def perChannel_def Let_def
            ps_def [symmetric])
  next
    case MaxFilter
    then show ?thesis
      using max_channel_byte [OF rd g] ch
      by (auto simp add: calculate_def f calculateMaxValues_def perChannel_def Let_def
            ps_def [symmetric])
  next
    case MidpointFilter
    then show ?thesis
      using midpoint_channel_byte [OF rd g] ch
      by (auto simp add: calculate_def f calculateMidpointValues_def perChannel_def Let_def
            ps_def [symmetric])
  next
    case GeometricMeanFilter
    then show ?thesis
      using geometric_channel_byte [OF facts] ch
      by (auto simp add: calculate_def f calculateGeometricMean_def perChannel_def Let_def
            ps_def [symmetric])
  next
    case HarmonicMeanFilter
    then show ?thesis
      using harmonic_channel_byte [OF facts] ch
      by (auto simp add: calculate_def f calculateHarmonicMean_def perChannel_def Let_def
            ps_def [symmetric])
  next
    case (ContraharmonicMeanFilter q)
    then show ?thesis using seven by simp
  qed
qed

text \<open>
  Claim C10. For a mean, median, min, max, midpoint, geometric-mean or harmonic-mean filter
  constructed with a positive odd size, on an image with at least one pixel whose array
  has four bytes per pixel, every channel that the per-pixel method returns is an integer
  between 0 and 255 (and not \<open>NaN\<close>), whatever the centre; none of the seven needs a
  clamp for it. The contraharmonic mean, which clamps, is not among them.
\<close>

theorem aggregator_outputs_are_bytes:
  assumes "constructor c ksize = Inr f" and "0 < ksize"
    and "c \<in> {MeanFilter, MedianFilter, MinFilter, MaxFilter, MidpointFilter,
               GeometricMeanFilter, HarmonicMeanFilter}"
    and "0 < w" and "0 < h" and "length data = w * h * 4"
  shows "byteValued (chR (calculate f data cx cy (int w) (int h))) \<and>
         byteValued (chG (calculate f data cx cy (int w) (int h))) \<and>
         byteValued (chB (calculate f data cx cy (int w) (int h)))"
  using channel_byte [OF assms, of 0 cx cy] channel_byte [OF assms, of 1 cx cy]
    channel_byte [OF assms, of 2 cx cy]
  by (cases "calculate f data cx cy (int w) (int h)") simp

theorem aggregator_outputs_are_bytes_witness:
  "constructor HarmonicMeanFilter 3 = Inr \<lparr>kernelSize = 3, radius = 1, kind = HarmonicMeanFilter\<rparr> \<and>
   (0::int) < 3 \<and>
   HarmonicMeanFilter \<in> {MeanFilter, MedianFilter, MinFilter, MaxFilter, MidpointFilter,
                           GeometricMeanFilter, HarmonicMeanFilter} \<and>
   (0::nat) < 2 \<and> (0::nat) < 1 \<and>
   length [10, 20, 30, 255, 40, 50, 60, 128 :: u8] = 2 * 1 * 4 \<and>
   byteValued (chR (calculate \<lparr>kernelSize = 3, radius = 1, kind = HarmonicMeanFilter\<rparr>
      [10, 20, 30, 255, 40, 50, 60, 128] 0 0 (int 2) (int 1))) \<and>
   byteValued (chG (calculate \<lparr>kernelSize = 3, radius = 1, kind = HarmonicMeanFilter\<rparr>
      [10, 20, 30, 255, 40, 50, 60, 128] 0 0 (int 2) (int 1))) \<and>
   byteValued (chB (calculate \<lparr>kernelSize = 3, radius = 1, kind = HarmonicMeanFilter\<rparr>
      [10, 20, 30, 255, 40, 50, 60, 128] 0 0 (int 2) (int 1)))"
  using aggregator_outputs_are_bytes
          [of HarmonicMeanFilter 3 "\<lparr>kernelSize = 3, radius = 1, kind = HarmonicMeanFilter\<rparr>"
              2 1 "[10, 20, 30, 255, 40, 50, 60, 128]" 0 0]
  by (simp add: constructor_def)

section \<open>The mean filter of size 1\<close>

lemma samplePositions_radius0:
  assumes "y < h" "x < w"
  shows "samplePositions 0 (int x) (int y) (int w) (int h) = [int ((y * w + x) * 4)]"
  using assms by (simp add: samplePositions_def validCoord_inside)

lemma js_round_nat: "js_round (Some (real n)) = Some (real n)"
  by (simp add: js_round_def)

lemma js_round_unsigned: "js_round (Some (unsigned (v :: u8))) = Some (unsigned v)"
  using js_round_nat [of "unat v"] by simp

lemma toUint8Clamp_unsigned: "toUint8Clamp (Some (unsigned (v :: u8))) = v"
  using toUint8Clamp_byte [of v] by simp

lemma mean_radius0_channel:
  assumes "y < h" "x < w" "k < 3" "length data = w * h * 4"
  shows "js_round (js_div
           (fold (\<lambda>p s. js_add s (rd data (p + int k))) [int ((y * w + x) * 4)] (Some 0))
           (Some (real (length [int ((y * w + x) * 4)]))))
         = Some (real (unat (data ! ((y * w + x) * 4 + k))))"
proof -
  have "(y * w + x) * 4 + k < length data"
    using pixel_offset_bound [OF assms(1,2), of k] assms(3,4) by simp
  then have "rd data (int ((y * w + x) * 4 + k)) = Some (real (unat (data ! ((y * w + x) * 4 + k))))"
    by (rule rd_in_range)
  then have "rd data (int ((y * w + x) * 4) + int k) = Some (real (unat (data ! ((y * w + x) * 4 + k))))"
    by simp
  then show ?thesis
    by (simp add: js_add_def js_lift2_def js_div_def js_round_unsigned del: of_nat_add of_nat_mult)
qed

lemma written_mean_radius0:
  assumes "y < h" "x < w" "k < 4" "length data = w * h * 4"
  shows "written (calculateMeanValues 0) data w h y x k = data ! ((y * w + x) * 4 + k)"
proof -
  have in_range: "(y * w + x) * 4 + k < length data"
    using pixel_offset_bound [OF assms(1-3)] assms(4) by simp
  from assms(3) consider "k = 0" | "k = 1" | "k = 2" | "k = 3" by linarith
  then show ?thesis
  proof cases
    case 1
    then show ?thesis
      using mean_radius0_channel [OF assms(1,2) _ assms(4), of 0]
      by (simp add: written_def calculateMeanValues_def perChannel_def
            samplePositions_radius0 [OF assms(1,2)] toUint8Clamp_unsigned Let_def
            del: fold_simps of_nat_add of_nat_mult)
  next
    case 2
    then show ?thesis
      using mean_radius0_channel [OF assms(1,2) _ assms(4), of 1]
      by (simp add: written_def calculateMeanValues_def perChannel_def
            samplePositions_radius0 [OF assms(1,2)] toUint8Clamp_unsigned Let_def
            del: fold_simps of_nat_add of_nat_mult)
  next
    case 3
    then show ?thesis
      using mean_radius0_channel [OF assms(1,2) _ assms(4), of 2]
      by (simp add: written_def calculateMeanValues_def perChannel_def
            samplePositions_radius0 [OF assms(1,2)] toUint8Clamp_unsigned Let_def
            del: fold_simps of_nat_add of_nat_mult)
  next
    case 4
    have "rd data (int ((y * w + x) * 4 + 3)) = Some (real (unat (data ! ((y * w + x) * 4 + 3))))"
      using in_range 4 by (intro rd_in_range) simp
    then show ?thesis
      using 4 by (simp add: written_def toUint8Clamp_unsigned)
  qed
qed

lemma sweep_mean_radius0:
  assumes "length data = w * h * 4"
  shows "sweep (calculateMeanValues 0) (length data) data w h = data"
proof (rule nth_equalityI)
  show "length (sweep (calculateMeanValues 0) (length data) data w h) = length data"
    by simp
next
  fix j
  assume "j < length (sweep (calculateMeanValues 0) (length data) data w h)"
  then have j: "j < w * h * 4" using assms by simp
  define q k where "q = j div 4" and "k = j mod 4"
  have qk: "j = q * 4 + k" "k < 4" "q < w * h"
    using j by (simp_all add: q_def k_def less_mult_imp_div_less)
  from pixel_number_split [OF qk(3)]
  obtain y x where yx: "y < h" "x < w" "y * w + x = q" by blast
  have "sweep (calculateMeanValues 0) (length data) data w h ! ((y * w + x) * 4 + k)
          = written (calculateMeanValues 0) data w h y x k"
    using yx qk j assms by (intro sweep_nth) simp_all
  also have "\<dots> = data ! ((y * w + x) * 4 + k)"
    using yx(1,2) qk(2) assms by (rule written_mean_radius0)
  finally show "sweep (calculateMeanValues 0) (length data) data w h ! j = data ! j"
    by (simp add: yx(3) qk(1))
qed

text \<open>
  Claim C8. The mean filter of size 1 can be constructed, with radius 0, and applying it
  gives back the input array: at every pixel the output's R, G and B bytes are the
  input's.
\<close>

theorem mean_size_one_identity:
  assumes "getImageData img = Inr data"
    and "length data = canvasWidth img * canvasHeight img * 4"
  shows "\<exists>f out. constructor MeanFilter 1 = Inr f \<and> radius f = 0 \<and>
           applyFilter f img = Resolve (PutImageData (canvasWidth img) (canvasHeight img) out) \<and>
           (\<forall>q < canvasWidth img * canvasHeight img.
              out ! (4 * q) = data ! (4 * q) \<and>
              out ! (4 * q + 1) = data ! (4 * q + 1) \<and>
              out ! (4 * q + 2) = data ! (4 * q + 2)) \<and>
           out = data"
proof -
  let ?f = "\<lparr>kernelSize = 1, radius = 0, kind = MeanFilter\<rparr>"
  have "constructor MeanFilter 1 = Inr ?f" by (simp add: constructor_def)
  moreover have "applyFilter ?f img
      = Resolve (PutImageData (canvasWidth img) (canvasHeight img) data)"
    using assms sweep_mean_radius0 [OF assms(2)]
    by (simp add: applyFilter_def processImageData_def calculate_def)
  ultimately show ?thesis by auto
qed

theorem mean_size_one_identity_witness:
  "getImageData \<lparr>canvasWidth = 2, canvasHeight = 1,
      getImageData = Inr [10, 20, 30, 255, 40, 50, 60, 128]\<rparr>
     = Inr [10, 20, 30, 255, 40, 50, 60, 128] \<and>
   length [10, 20, 30, 255, 40, 50, 60, 128 :: u8] = 2 * 1 * 4 \<and>
   (\<exists>f. constructor MeanFilter 1 = Inr f \<and> radius f = 0 \<and>
      applyFilter f \<lparr>canvasWidth = 2, canvasHeight = 1,
          getImageData = Inr [10, 20, 30, 255, 40, 50, 60, 128]\<rparr>
        = Resolve (PutImageData 2 1 [10, 20, 30, 255, 40, 50, 60, 128]))"
  using mean_size_one_identity
          [of "\<lparr>canvasWidth = 2, canvasHeight = 1,
                 getImageData = Inr [10, 20, 30, 255, 40, 50, 60, 128]\<rparr>"
              "[10, 20, 30, 255, 40, 50, 60, 128]"]
  by auto

section \<open>Contraharmonic mean at Q = 0 and Q = -1\<close>

lemma round_close:
  fixes x y :: real
  assumes "\<bar>x - y\<bar> \<le> 1"
  shows "\<bar>\<lfloor>x + 1 / 2\<rfloor> - \<lfloor>y + 1 / 2\<rfloor>\<bar> \<le> 1"
proof -
  have up: "\<lfloor>u + of_int 1\<rfloor> = \<lfloor>u\<rfloor> + 1" for u :: real
    using floor_add_int [of u 1] by simp
  have "\<lfloor>x + 1 / 2\<rfloor> \<le> \<lfloor>(y + 1 / 2) + of_int 1\<rfloor>"
    using assms by (intro floor_mono) simp
  moreover have "\<lfloor>y + 1 / 2\<rfloor> \<le> \<lfloor>(x + 1 / 2) + of_int 1\<rfloor>"
    using assms by (intro floor_mono) simp
  ultimately show ?thesis unfolding up by linarith
qed

lemma clamp_round_within1:
  fixes x y :: real
  assumes "\<bar>x - y\<bar> \<le> 1" "0 \<le> y" "y \<le> 255 + epsilon"
  shows "within1 (js_max (Some 0) (js_min (Some 255) (js_round (Some x)))) (js_round (Some y))"
proof -
  let ?a = "\<lfloor>x + 1 / 2\<rfloor>" and ?b = "\<lfloor>y + 1 / 2\<rfloor>"
  have "0 \<le> ?b" using assms(2) by simp
  moreover have "?b \<le> 255"
  proof -
    have "epsilon < 1 / 2" by (simp add: epsilon_def)
    then have "y + 1 / 2 < 256" using assms(3) by linarith
    then have "?b < 256" by (simp add: floor_less_iff)
    then show ?thesis by simp
  qed
  moreover have "\<bar>?a - ?b\<bar> \<le> 1" using assms(1) by (rule round_close)
  ultimately have "\<bar>max 0 (min 255 ?a) - ?b\<bar> \<le> 1" by linarith
  then have "\<bar>real_of_int (max 0 (min 255 ?a)) - real_of_int ?b\<bar> \<le> 1"
    by (simp only: flip: of_int_diff of_int_abs) simp?
  then show ?thesis
    by (simp add: within1_def js_max_def js_min_def js_lift2_def js_round_def)
qed

lemma sample_eps_pos: "0 < real n + epsilon"
  using epsilon_pos by (simp add: add_nonneg_pos)

lemma power_sum_one:
  "sum_list (map (\<lambda>p. (real (g p) + epsilon) powr 1) ps)
     = sum_list (map (\<lambda>p. real (g p)) ps) + real (length ps) * epsilon"
proof -
  have "(real (g p) + epsilon) powr 1 = real (g p) + epsilon" for p
    using sample_eps_pos [of "g p"] by simp
  then show ?thesis by (simp add: sum_list_addf sum_list_triv)
qed

lemma power_sum_zero:
  "sum_list (map (\<lambda>p. (real (g p) + epsilon) powr 0) ps) = real (length ps)"
proof -
  have "(real (g p) + epsilon) powr 0 = 1" for p
    using sample_eps_pos [of "g p"] by simp
  then show ?thesis by (simp add: sum_list_triv)
qed

lemma power_sum_minus_one:
  "sum_list (map (\<lambda>p. (real (g p) + epsilon) powr (- 1)) ps)
     = sum_list (map (\<lambda>p. 1 / (real (g p) + epsilon)) ps)"
proof -
  have "(real (g p) + epsilon) powr (- 1) = 1 / (real (g p) + epsilon)" for p
    using sample_eps_pos [of "g p"] by (simp add: powr_minus_divide)
  then show ?thesis by simp
qed

text \<open>The arithmetic behind the two cases, with \<open>n\<close> the number of samples.\<close>

lemma mean_shift_small:
  fixes n S :: real
  assumes n: "1 \<le> n" and S: "0 \<le> S" "S / n \<le> 255"
  shows "\<bar>(S + n * epsilon) / (n + epsilon) - S / n\<bar> \<le> 1"
proof -
  define m where "m = S / n"
  have Sm: "S = m * n" using n by (simp add: m_def)
  have ne: "0 < n + epsilon" using n epsilon_pos by linarith
  have m: "0 \<le> m" "m \<le> 255" using S n by (simp_all add: m_def)
  have eq: "(S + n * epsilon) / (n + epsilon) - m = epsilon * (n - m) / (n + epsilon)"
    using ne by (simp add: Sm field_simps)
  have "\<bar>epsilon * (n - m) / (n + epsilon)\<bar> = epsilon * (\<bar>n - m\<bar> / (n + epsilon))"
    using ne epsilon_pos by (simp add: abs_mult)
  also have "\<bar>n - m\<bar> / (n + epsilon) \<le> 256"
  proof -
    have "\<bar>n - m\<bar> \<le> 256 * n" using m n by linarith
    also have "\<dots> \<le> 256 * (n + epsilon)" using epsilon_pos by simp
    finally show ?thesis using ne by (simp add: pos_divide_le_eq)
  qed
  finally have "\<bar>epsilon * (n - m) / (n + epsilon)\<bar> \<le> epsilon * 256"
    using epsilon_pos by simp
  also have "\<dots> \<le> 1" by (simp add: epsilon_def)
  finally show ?thesis using eq by (simp add: m_def)
qed

lemma harmonic_shift_small:
  fixes n T :: real
  assumes n: "1 \<le> n" and T: "0 < T" "n / T \<le> 255 + epsilon"
  shows "\<bar>n / (T + epsilon) - n / T\<bar> \<le> 1"
proof -
  have Te: "0 < T + epsilon" using T(1) epsilon_pos by linarith
  have e: "epsilon \<le> 1" by (simp add: epsilon_def)
  have y: "n / T \<le> 256" using T(2) e by linarith
  have "1 / T \<le> n / T" using n T(1) by (simp add: divide_le_cancel)
  then have invT: "1 / T \<le> 256" using y by linarith
  have eq: "n / T - n / (T + epsilon) = (n / T) * (epsilon * (1 / (T + epsilon)))"
    using T(1) Te by (simp add: field_simps)
  define a b where "a = epsilon * (1 / (T + epsilon))" and "b = n / T"
  have "1 / (T + epsilon) \<le> 1 / T"
    using T(1) epsilon_pos by (intro divide_left_mono) simp_all
  then have "1 / (T + epsilon) \<le> 256" using invT by linarith
  then have a1: "a \<le> epsilon * 256"
    unfolding a_def using epsilon_pos by (intro mult_left_mono) simp_all
  have a0: "0 \<le> a" unfolding a_def using epsilon_pos Te by simp
  have b0: "0 \<le> b" unfolding b_def using n T(1) by simp
  have b1: "b \<le> 256" unfolding b_def by (rule y)
  have "b * a \<le> 256 * (epsilon * 256)"
    using a0 a1 b0 b1 by (intro mult_mono) simp_all
  also have "\<dots> \<le> 1" by (simp add: epsilon_def)
  finally have up: "n / T - n / (T + epsilon) \<le> 1" unfolding eq a_def b_def .
  have "n / (T + epsilon) \<le> n / T"
    using n T(1) epsilon_pos by (intro divide_left_mono) simp_all
  with up show ?thesis by simp
qed

lemma contraharmonic0_channel:
  assumes rd: "\<forall>p \<in> set ps. F p = Some (real (g p))" and g: "\<forall>p. g p \<le> (255::nat)"
    and ne: "ps \<noteq> []"
  shows "within1
     (js_max (Some 0) (js_min (Some 255) (js_round (js_div
         (fold (\<lambda>p s. js_add s (js_pow (js_add (F p) (Some epsilon)) (0 + 1))) ps (Some 0))
         (js_add (fold (\<lambda>p s. js_add s (js_pow (js_add (F p) (Some epsilon)) 0)) ps (Some 0))
            (Some epsilon))))))
     (js_round (js_div (fold (\<lambda>p s. js_add s (F p)) ps (Some 0)) (Some (real (length ps)))))"
proof -
  let ?S = "sum_list (map (\<lambda>p. real (g p)) ps)" and ?n = "real (length ps)"
  have n: "1 \<le> ?n" using ne by (cases ps) simp_all
  note m = mean_channel [OF rd g ne]
  have "0 \<le> ?S" using sum_list_lower [of ps 0 "\<lambda>p. real (g p)"] by simp
  then have close: "\<bar>(?S + ?n * epsilon) / (?n + epsilon) - ?S / ?n\<bar> \<le> 1"
    using n m(3) by (intro mean_shift_small)
  have chm: "js_div
         (fold (\<lambda>p s. js_add s (js_pow (js_add (F p) (Some epsilon)) (0 + 1))) ps (Some 0))
         (js_add (fold (\<lambda>p s. js_add s (js_pow (js_add (F p) (Some epsilon)) 0)) ps (Some 0))
            (Some epsilon))
       = Some ((?S + ?n * epsilon) / (?n + epsilon))"
    by (simp only: contraharmonic_channel [OF rd, of 0])
      (simp only: add_0 power_sum_one power_sum_zero)
  show ?thesis
    unfolding chm m(1) using close m(2) m(3) epsilon_pos
    by (intro clamp_round_within1) simp_all
qed

lemma contraharmonic_minus1_channel:
  assumes rd: "\<forall>p \<in> set ps. F p = Some (real (g p))" and g: "\<forall>p. g p \<le> (255::nat)"
    and ne: "ps \<noteq> []"
  shows "within1
     (js_max (Some 0) (js_min (Some 255) (js_round (js_div
         (fold (\<lambda>p s. js_add s (js_pow (js_add (F p) (Some epsilon)) (- 1 + 1))) ps (Some 0))
         (js_add (fold (\<lambda>p s. js_add s (js_pow (js_add (F p) (Some epsilon)) (- 1))) ps (Some 0))
            (Some epsilon))))))
     (js_round (js_div (Some (real (length ps)))
         (fold (\<lambda>p s. js_add s (js_div (Some 1) (js_add (F p) (Some epsilon)))) ps (Some 0))))"
proof -
  let ?T = "sum_list (map (\<lambda>p. 1 / (real (g p) + epsilon)) ps)" and ?n = "real (length ps)"
  have n: "1 \<le> ?n" using ne by (cases ps) simp_all
  note hm = harmonic_channel [OF rd g ne]
  have close: "\<bar>?n / (?T + epsilon) - ?n / ?T\<bar> \<le> 1"
    using n hm(2,3) by (intro harmonic_shift_small)
  have chm: "js_div
         (fold (\<lambda>p s. js_add s (js_pow (js_add (F p) (Some epsilon)) (- 1 + 1))) ps (Some 0))
         (js_add (fold (\<lambda>p s. js_add s (js_pow (js_add (F p) (Some epsilon)) (- 1))) ps (Some 0))
            (Some epsilon))
       = Some (?n / (?T + epsilon))"
    by (simp only: contraharmonic_channel [OF rd, of "- 1"])
      (simp only: add.left_inverse power_sum_minus_one power_sum_zero)
  have "0 \<le> ?n / ?T" using n hm(2) by simp
  then show ?thesis
    unfolding chm hm(1) using close hm(3)
    by (intro clamp_round_within1) simp_all
qed

text \<open>
  Claim C7. On the same neighbourhood (same radius, image and centre) each channel of the
  contraharmonic mean with \<open>Q = 0\<close> is within 1 of the arithmetic mean, and each
  channel of the contraharmonic mean with \<open>Q = -1\<close> is within 1 of the harmonic mean.
\<close>

theorem contraharmonic_degenerate_cases:
  assumes r: "0 \<le> r" and w: "0 < w" and h: "0 < h" and len: "length data = w * h * 4"
  shows "within1 (chR (calculateContraharmonicMean 0 r data cx cy (int w) (int h)))
                 (chR (calculateMeanValues r data cx cy (int w) (int h))) \<and>
         within1 (chG (calculateContraharmonicMean 0 r data cx cy (int w) (int h)))
                 (chG (calculateMeanValues r data cx cy (int w) (int h))) \<and>
         within1 (chB (calculateContraharmonicMean 0 r data cx cy (int w) (int h)))
                 (chB (calculateMeanValues r data cx cy (int w) (int h))) \<and>
         within1 (chR (calculateContraharmonicMean (- 1) r data cx cy (int w) (int h)))
                 (chR (calculateHarmonicMean r data cx cy (int w) (int h))) \<and>
         within1 (chG (calculateContraharmonicMean (- 1) r data cx cy (int w) (int h)))
                 (chG (calculateHarmonicMean r data cx cy (int w) (int h))) \<and>
         within1 (chB (calculateContraharmonicMean (- 1) r data cx cy (int w) (int h)))
                 (chB (calculateHarmonicMean r data cx cy (int w) (int h)))"
proof -
  define ps where "ps = samplePositions r cx cy (int w) (int h)"
  have ne: "ps \<noteq> []" unfolding ps_def using r by (rule samplePositions_nonempty)
  have rd: "\<forall>p \<in> set ps. rd data (p + ch) = Some (real (sampleAt data ch p))"
    if "ch \<in> {0, 1, 2}" for ch :: int
    using rd_sample(1) [OF _ w h len that] unfolding ps_def by blast
  have g: "\<forall>p. sampleAt data ch p \<le> 255" for ch by (simp add: sampleAt_le)
  have a: "within1
     (js_max (Some 0) (js_min (Some 255) (js_round (js_div
         (fold (\<lambda>p s. js_add s (js_pow (js_add (rd data (p + ch)) (Some epsilon)) (0 + 1))) ps (Some 0))
         (js_add (fold (\<lambda>p s. js_add s (js_pow (js_add (rd data (p + ch)) (Some epsilon)) 0)) ps (Some 0))
            (Some epsilon))))))
     (js_round (js_div (fold (\<lambda>p s. js_add s (rd data (p + ch))) ps (Some 0)) (Some (real (length ps)))))"
    if "ch \<in> {0, 1, 2}" for ch :: int
    using rd [OF that] g ne by (rule contraharmonic0_channel)
  have b: "within1
     (js_max (Some 0) (js_min (Some 255) (js_round (js_div
         (fold (\<lambda>p s. js_add s (js_pow (js_add (rd data (p + ch)) (Some epsilon)) (- 1 + 1))) ps (Some 0))
         (js_add (fold (\<lambda>p s. js_add s (js_pow (js_add (rd data (p + ch)) (Some epsilon)) (- 1))) ps (Some 0))
            (Some epsilon))))))
     (js_round (js_div (Some (real (length ps)))
         (fold (\<lambda>p s. js_add s (js_div (Some 1) (js_add (rd data (p + ch)) (Some epsilon)))) ps (Some 0))))"
    if "ch \<in> {0, 1, 2}" for ch :: int
    using rd [OF that] g ne by (rule contraharmonic_minus1_channel)
  show ?thesis
    unfolding calculateContraharmonicMean_def calculateMeanValues_def calculateHarmonicMean_def
      perChannel_def Let_def ps_def [symmetric] rgb.sel
    using a [of 0] a [of 1] a [of 2] b [of 0] b [of 1] b [of 2] by simp
qed

theorem contraharmonic_degenerate_cases_witness:
  "(0::int) \<le> 1 \<and> (0::nat) < 2 \<and> (0::nat) < 1 \<and>
   length [10, 20, 30, 255, 40, 50, 60, 128 :: u8] = 2 * 1 * 4 \<and>
   within1 (chR (calculateContraharmonicMean 0 1 [10, 20, 30, 255, 40, 50, 60, 128] 0 0 (int 2) (int 1)))
           (chR (calculateMeanValues 1 [10, 20, 30, 255, 40, 50, 60, 128] 0 0 (int 2) (int 1))) \<and>
   within1 (chG (calculateContraharmonicMean 0 1 [10, 20, 30, 255, 40, 50, 60, 128] 0 0 (int 2) (int 1)))
           (chG (calculateMeanValues 1 [10, 20, 30, 255, 40, 50, 60, 128] 0 0 (int 2) (int 1))) \<and>
   within1 (chB (calculateContraharmonicMean 0 1 [10, 20, 30, 255, 40, 50, 60, 128] 0 0 (int 2) (int 1)))
           (chB (calculateMeanValues 1 [10, 20, 30, 255, 40, 50, 60, 128] 0 0 (int 2) (int 1))) \<and>
   within1 (chR (calculateContraharmonicMean (- 1) 1 [10, 20, 30, 255, 40, 50, 60, 128] 0 0 (int 2) (int 1)))
           (chR (calculateHarmonicMean 1 [10, 20, 30, 255, 40, 50, 60, 128] 0 0 (int 2) (int 1))) \<and>
   within1 (chG (calculateContraharmonicMean (- 1) 1 [10, 20, 30, 255, 40, 50, 60, 128] 0 0 (int 2) (int 1)))
           (chG (calculateHarmonicMean 1 [10, 20, 30, 255, 40, 50, 60, 128] 0 0 (int 2) (int 1))) \<and>
   within1 (chB (calculateContraharmonicMean (- 1) 1 [10, 20, 30, 255, 40, 50, 60, 128] 0 0 (int 2) (int 1)))
           (chB (calculateHarmonicMean 1 [10, 20, 30, 255, 40, 50, 60, 128] 0 0 (int 2) (int 1)))"
  using contraharmonic_degenerate_cases [of 1 2 1 "[10, 20, 30, 255, 40, 50, 60, 128]" 0 0]
  by simp

section \<open>Median: the histogram counters wrap\<close>

lemma findMedianLoop_unreached:
  assumes "acc + sum_list (map uint hist) < m"
  shows "findMedianLoop m hist i acc = 255"
  using assms
proof (induction hist arbitrary: i acc)
  case Nil
  then show ?case by simp
next
  case (Cons c cs)
  have "0 \<le> sum_list (map uint cs)" by (rule sum_list_nonneg) auto
  with Cons.prems have "\<not> m \<le> acc + uint c" by simp
  moreover have "findMedianLoop m cs (i + 1) (acc + uint c) = 255"
    using Cons.prems by (intro Cons.IH) simp
  ultimately show ?case by simp
qed

lemma validCoord_one: "validCoord 1 c = 0"
  by (simp add: validCoord_def Let_def)

lemma concat_replicate_replicate:
  "concat (replicate m (replicate n x)) = replicate (m * n) x"
  by (induction m) (simp_all add: replicate_add)

lemma samplePositions_single_pixel:
  "samplePositions r cx cy 1 1 = replicate (nat (2 * r + 1) * nat (2 * r + 1)) 0"
  by (simp add: samplePositions_def validCoord_one map_replicate_const
        concat_replicate_replicate)

lemma fold_histIncr_replicate:
  assumes "S p = Some v" "unat v < length hist"
  shows "fold (\<lambda>p hist. histIncr (S p) hist) (replicate n p) hist
           = hist[unat v := hist ! unat v + of_nat n]"
  using assms(2)
proof (induction n arbitrary: hist)
  case 0
  then show ?case by simp
next
  case (Suc n)
  have "fold (\<lambda>p hist. histIncr (S p) hist) (replicate (Suc n) p) hist
          = fold (\<lambda>p hist. histIncr (S p) hist) (replicate n p) (hist[unat v := hist ! unat v + 1])"
    by (simp add: histIncr_def assms(1))
  also have "\<dots> = (hist[unat v := hist ! unat v + 1])
                      [unat v := (hist[unat v := hist ! unat v + 1]) ! unat v + of_nat n]"
    using Suc.prems by (intro Suc.IH) simp
  also have "\<dots> = hist[unat v := hist ! unat v + of_nat (Suc n)]"
    using Suc.prems by (simp add: add.assoc)
  finally show ?case .
qed

lemma sum_list_update_zero:
  fixes c :: "16 word"
  shows "sum_list (map uint ((replicate n 0)[k := c])) = (if k < n then uint c else 0)"
proof (induction n arbitrary: k)
  case 0
  then show ?case by simp
next
  case (Suc n)
  then show ?case by (cases k) (simp_all add: sum_list_replicate)
qed

lemma median_257_channel:
  assumes "ch \<in> {0, 1, 2}"
  shows "findMedian (257 * 257 div 2 + 1)
           (fold (\<lambda>p hist. histIncr (rdByte [0, 0, 0, 255] (p + ch)) hist)
              (samplePositions 128 0 0 1 1) createHistogram) = 255"
proof -
  have rd: "rdByte [0, 0, 0, 255] (0 + ch) = Some 0"
    using assms by (auto simp add: rdByte_def)
  have "fold (\<lambda>p hist. histIncr (rdByte [0, 0, 0, 255] (p + ch)) hist)
          (replicate 66049 0) createHistogram
        = createHistogram[unat (0 :: u8) := createHistogram ! unat (0 :: u8) + of_nat 66049]"
    using rd
    by (intro fold_histIncr_replicate [where S = "\<lambda>p. rdByte [0, 0, 0, 255] (p + ch)" and p = 0])
      (simp_all add: createHistogram_def)
  also have "\<dots> = (replicate 256 0)[0 := 66049]"
    by (simp add: createHistogram_def)
  finally have hist: "fold (\<lambda>p hist. histIncr (rdByte [0, 0, 0, 255] (p + ch)) hist)
          (samplePositions 128 0 0 1 1) createHistogram = (replicate 256 0)[0 := 66049]"
    by (simp add: samplePositions_single_pixel)
  show ?thesis
    unfolding hist findMedian_def
    by (rule findMedianLoop_unreached) (simp add: sum_list_update_zero)
qed

text \<open>
  Claim C4 on the code: a median filter of size 257 takes 66049 samples per pixel. On a
  single black pixel every sample is 0, bin 0 is incremented 66049 times and holds
  \<open>66049 mod 65536 = 513\<close>, the running sum never reaches the rank 33025, and the
  filter returns 255 on every channel where the median of the samples is 0.
\<close>

theorem median_counter_overflow:
  "constructor MedianFilter 257 = Inr \<lparr>kernelSize = 257, radius = 128, kind = MedianFilter\<rparr> \<and>
   calculate \<lparr>kernelSize = 257, radius = 128, kind = MedianFilter\<rparr> [0, 0, 0, 255] 0 0 1 1
     = Rgb (Some 255) (Some 255) (Some 255) \<and>
   applyFilter \<lparr>kernelSize = 257, radius = 128, kind = MedianFilter\<rparr>
     \<lparr>canvasWidth = 1, canvasHeight = 1, getImageData = Inr [0, 0, 0, 255]\<rparr>
     = Resolve (PutImageData 1 1 [255, 255, 255, 255])"
proof -
  have c: "calculate \<lparr>kernelSize = 257, radius = 128, kind = MedianFilter\<rparr> [0, 0, 0, 255] 0 0 1 1
     = Rgb (Some 255) (Some 255) (Some 255)"
    using median_257_channel [of 0] median_257_channel [of 1] median_257_channel [of 2]
    by (simp add: calculate_def calculateMedianValues_def perChannel_def Let_def)
  have "sweep (calculate \<lparr>kernelSize = 257, radius = 128, kind = MedianFilter\<rparr>)
          (length [0, 0, 0, 255 :: u8]) [0, 0, 0, 255] 1 1
          = [255, 255, 255, 255]"
  proof -
    have rep: "replicate 4 (0::u8) = [0, 0, 0, 0]" by (simp add: eval_nat_numeral)
    show ?thesis
      using c by (simp add: sweep_def writePixel_def Let_def toUint8Clamp_def rd_def rdByte_def rep)
  qed
  then show ?thesis
    using c by (simp add: constructor_def applyFilter_def processImageData_def)
qed

section \<open>Median: exact while the counters do not wrap\<close>

text \<open>Order statistics of a list of naturals, by counting.\<close>

lemma length_filter_mono:
  assumes "\<And>x. x \<in> set xs \<Longrightarrow> P x \<Longrightarrow> P' x"
  shows "length (filter P xs) \<le> length (filter P' xs)"
  using assms by (induction xs) auto

lemma length_filter_sort:
  fixes xs :: "nat list"
  shows "length (filter P (sort xs)) = length (filter P xs)"
  by (simp add: filter_sort)

lemma sorted_count_below:
  fixes ys :: "nat list"
  assumes "sorted ys" "k < length ys"
  shows "length (filter (\<lambda>x. x < ys ! k) ys) \<le> k"
proof -
  have "filter (\<lambda>x. x < ys ! k) (drop k ys) = []"
  proof -
    have "ys ! k \<le> x" if "x \<in> set (drop k ys)" for x
    proof -
      from that obtain j where "j < length (drop k ys)" "x = drop k ys ! j"
        by (auto simp add: in_set_conv_nth)
      then have "x = ys ! (k + j)" "k + j < length ys" using assms(2) by simp_all
      then show ?thesis using sorted_nth_mono [OF assms(1), of k "k + j"] by simp
    qed
    then have "\<forall>x \<in> set (drop k ys). \<not> x < ys ! k" by (auto simp add: not_less)
    then show ?thesis by (simp only: filter_empty_conv)
  qed
  then have "filter (\<lambda>x. x < ys ! k) ys = filter (\<lambda>x. x < ys ! k) (take k ys)"
    using filter_append [of "\<lambda>x. x < ys ! k" "take k ys" "drop k ys"] by simp
  then have "length (filter (\<lambda>x. x < ys ! k) ys)
               = length (filter (\<lambda>x. x < ys ! k) (take k ys))"
    by (rule arg_cong)
  also have "\<dots> \<le> length (take k ys)" by (rule length_filter_le)
  also have "\<dots> = k" using assms(2) by simp
  finally show ?thesis .
qed

lemma sorted_count_up_to:
  fixes ys :: "nat list"
  assumes "sorted ys" "k < length ys"
  shows "k < length (filter (\<lambda>x. x \<le> ys ! k) ys)"
proof -
  have "x \<le> ys ! k" if "x \<in> set (take (Suc k) ys)" for x
  proof -
    from that obtain j where "j < length (take (Suc k) ys)" "x = take (Suc k) ys ! j"
      by (auto simp add: in_set_conv_nth)
    then have "x = ys ! j" "j \<le> k" using assms(2) by simp_all
    then show ?thesis using sorted_nth_mono [OF assms(1), of j k] assms(2) by simp
  qed
  then have "filter (\<lambda>x. x \<le> ys ! k) (take (Suc k) ys) = take (Suc k) ys"
    by (simp add: filter_id_conv)
  then have "length (take (Suc k) ys) \<le> length (filter (\<lambda>x. x \<le> ys ! k) ys)"
    using filter_append [of "\<lambda>x. x \<le> ys ! k" "take (Suc k) ys" "drop (Suc k) ys"] by simp
  then show ?thesis using assms(2) by simp
qed

lemma order_statistic_by_counting:
  fixes xs :: "nat list"
  assumes k: "k < length xs"
    and up: "k < length (filter (\<lambda>x. x \<le> v) xs)"
    and below: "length (filter (\<lambda>x. x < v) xs) \<le> k"
  shows "sort xs ! k = v"
proof -
  let ?s = "sort xs ! k"
  have s1: "length (filter (\<lambda>x. x < ?s) xs) \<le> k"
    using sorted_count_below [of "sort xs" k] k by (simp add: length_filter_sort)
  have s2: "k < length (filter (\<lambda>x. x \<le> ?s) xs)"
    using sorted_count_up_to [of "sort xs" k] k by (simp add: length_filter_sort)
  have "\<not> v < ?s"
  proof
    assume "v < ?s"
    then have "length (filter (\<lambda>x. x \<le> v) xs) \<le> length (filter (\<lambda>x. x < ?s) xs)"
      by (intro length_filter_mono) simp
    with up s1 show False by simp
  qed
  moreover have "\<not> ?s < v"
  proof
    assume "?s < v"
    then have "length (filter (\<lambda>x. x \<le> ?s) xs) \<le> length (filter (\<lambda>x. x < v) xs)"
      by (intro length_filter_mono) simp
    with s2 below show False by simp
  qed
  ultimately show ?thesis by simp
qed

text \<open>Cumulative counts.\<close>

lemma count_below_Suc:
  "length (filter (\<lambda>x. x < Suc k) xs) = length (filter (\<lambda>x. x < k) xs) + count_list xs k"
  by (induction xs) auto

lemma sum_counts_below:
  "sum_list (map (count_list xs) [0..<k]) = length (filter (\<lambda>x. x < k) xs)"
  by (induction k) (simp_all add: count_below_Suc)

lemma count_list_le_length: "count_list xs v \<le> length xs"
  by (induction xs) auto

text \<open>The loop stops at the first bin where the running sum reaches the rank.\<close>

lemma findMedianLoop_first:
  assumes "acc < m" "m \<le> acc + sum_list (map uint hist)"
  shows "\<exists>k < length hist. findMedianLoop m hist i acc = i + int k \<and>
           m \<le> acc + sum_list (map uint (take (Suc k) hist)) \<and>
           acc + sum_list (map uint (take k hist)) < m"
  using assms
proof (induction hist arbitrary: i acc)
  case Nil
  then show ?case by simp
next
  case (Cons c cs)
  show ?case
  proof (cases "m \<le> acc + uint c")
    case True
    then show ?thesis using Cons.prems(1) by (intro exI [of _ 0]) simp
  next
    case False
    then have "acc + uint c < m" "m \<le> (acc + uint c) + sum_list (map uint cs)"
      using Cons.prems(2) by simp_all
    from Cons.IH [OF this, of "i + 1"] obtain k where
      k: "k < length cs" "findMedianLoop m cs (i + 1) (acc + uint c) = i + 1 + int k"
         "m \<le> acc + uint c + sum_list (map uint (take (Suc k) cs))"
         "acc + uint c + sum_list (map uint (take k cs)) < m"
      by blast
    then show ?thesis using False by (intro exI [of _ "Suc k"]) (simp add: add.assoc)
  qed
qed

text \<open>Every bin holds the number of samples of its value, modulo \<open>2^16\<close>.\<close>

lemma histogram_bins:
  fixes b :: "'p \<Rightarrow> u8"
  assumes "\<forall>p \<in> set ps. S p = Some (b p)" "length hist = 256" "v < 256"
  shows "fold (\<lambda>p hist. histIncr (S p) hist) ps hist ! v
           = hist ! v + of_nat (count_list (map (\<lambda>p. unat (b p)) ps) v)"
  using assms
proof (induction ps arbitrary: hist)
  case Nil
  then show ?case by simp
next
  case (Cons p ps)
  let ?h = "hist[unat (b p) := hist ! unat (b p) + 1]"
  have bp: "unat (b p) < length hist"
    using unsigned_less [of "b p"] Cons.prems(2) by simp
  have "fold (\<lambda>p hist. histIncr (S p) hist) (p # ps) hist ! v
          = fold (\<lambda>p hist. histIncr (S p) hist) ps ?h ! v"
    using Cons.prems(1) by (simp add: histIncr_def)
  also have "\<dots> = ?h ! v + of_nat (count_list (map (\<lambda>p. unat (b p)) ps) v)"
    using Cons.prems by (intro Cons.IH) simp_all
  also have "\<dots> = hist ! v + of_nat (count_list (map (\<lambda>p. unat (b p)) (p # ps)) v)"
    using bp Cons.prems(3) by (simp add: nth_list_update)
  finally show ?case .
qed

lemma take_as_map_nth:
  assumes "k \<le> length xs"
  shows "take k xs = map (\<lambda>j. xs ! j) [0..<k]"
  using assms by (intro nth_equalityI) simp_all

lemma histogram_cumulative:
  fixes b :: "'p \<Rightarrow> u8"
  assumes rd: "\<forall>p \<in> set ps. S p = Some (b p)" and small: "length ps < 65536" and k: "k \<le> 256"
  shows "sum_list (map uint (take k (fold (\<lambda>p hist. histIncr (S p) hist) ps createHistogram)))
           = int (length (filter (\<lambda>x. x < k) (map (\<lambda>p. unat (b p)) ps)))"
proof -
  let ?H = "fold (\<lambda>p hist. histIncr (S p) hist) ps createHistogram"
  let ?xs = "map (\<lambda>p. unat (b p)) ps"
  have len: "length ?H = 256" by (simp add: createHistogram_def)
  have bin: "uint (?H ! j) = int (count_list ?xs j)" if "j < k" for j
  proof -
    have "j < 256" using that k by simp
    then have "?H ! j = createHistogram ! j + of_nat (count_list ?xs j)"
      using rd by (intro histogram_bins) (simp_all add: createHistogram_def)
    also have "\<dots> = of_nat (count_list ?xs j)"
      using \<open>j < 256\<close> by (simp add: createHistogram_def)
    finally have "?H ! j = of_nat (count_list ?xs j)" .
    moreover have "count_list ?xs j < 65536"
      using count_list_le_length [of ?xs j] small by simp
    ultimately show ?thesis
      by (simp add: uint_nat unat_of_nat)
  qed
  have "take k ?H = map (\<lambda>j. ?H ! j) [0..<k]"
    using k len by (intro take_as_map_nth) simp
  then have "sum_list (map uint (take k ?H)) = sum_list (map (\<lambda>j. uint (?H ! j)) [0..<k])"
    by (simp add: comp_def)
  also have "\<dots> = sum_list (map (\<lambda>j. int (count_list ?xs j)) [0..<k])"
    using bin by (intro arg_cong [where f = sum_list] map_cong) simp_all
  also have "\<dots> = int (sum_list (map (count_list ?xs) [0..<k]))"
    by (simp add: sum_list_of_nat [symmetric] comp_def)
  also have "\<dots> = int (length (filter (\<lambda>x. x < k) ?xs))"
    by (simp only: sum_counts_below)
  finally show ?thesis .
qed

lemma median_channel_exact:
  fixes b :: "'p \<Rightarrow> u8"
  assumes rd: "\<forall>p \<in> set ps. S p = Some (b p)" and ne: "ps \<noteq> []" and small: "length ps < 65536"
  shows "findMedian (int (length ps div 2) + 1)
           (fold (\<lambda>p hist. histIncr (S p) hist) ps createHistogram)
         = int (sort (map (\<lambda>p. unat (b p)) ps) ! (length ps div 2))"
proof -
  let ?H = "fold (\<lambda>p hist. histIncr (S p) hist) ps createHistogram"
  let ?xs = "map (\<lambda>p. unat (b p)) ps"
  let ?m = "int (length ps div 2) + 1"
  have len: "length ?H = 256" by (simp add: createHistogram_def)
  have cum: "sum_list (map uint (take k ?H)) = int (length (filter (\<lambda>x. x < k) ?xs))"
    if "k \<le> 256" for k
    using rd small that by (rule histogram_cumulative)
  have all: "filter (\<lambda>x. x < 256) ?xs = ?xs"
  proof -
    have "unat (b p) < 256" for p using unsigned_less [of "b p"] by simp
    then show ?thesis by (simp add: filter_id_conv)
  qed
  have total: "sum_list (map uint ?H) = int (length ps)"
    using cum [of 256] len by (simp add: all)
  have n: "0 < length ps" using ne by simp
  have "length ps div 2 < length ps" using n by simp
  then have "?m \<le> 0 + sum_list (map uint ?H)"
    unfolding total by linarith
  moreover have "0 < ?m" by simp
  ultimately obtain k where k: "k < length ?H" "findMedianLoop ?m ?H 0 0 = 0 + int k"
      "?m \<le> 0 + sum_list (map uint (take (Suc k) ?H))"
      "0 + sum_list (map uint (take k ?H)) < ?m"
    using findMedianLoop_first [of 0 ?m ?H 0] by blast
  have k256: "k < 256" using k(1) len by simp
  have up: "length ps div 2 < length (filter (\<lambda>x. x \<le> k) ?xs)"
  proof -
    have "?m \<le> int (length (filter (\<lambda>x. x < Suc k) ?xs))"
      using k(3) cum [of "Suc k"] k256 by simp
    then show ?thesis by (simp add: less_Suc_eq_le)
  qed
  have below: "length (filter (\<lambda>x. x < k) ?xs) \<le> length ps div 2"
    using k(4) cum [of k] k256 by simp
  have "sort ?xs ! (length ps div 2) = k"
    using n up below by (intro order_statistic_by_counting) simp_all
  then show ?thesis by (simp add: findMedian_def k(2))
qed

text \<open>
  For sizes up to 255 no counter can wrap (at most 65025 samples), and the median filter
  returns on each channel the sample of rank \<open>floor (N / 2) + 1\<close> among the
  \<open>N = size * size\<close> samples of the neighbourhood, that is the element at index
  \<open>N div 2\<close> of the sorted samples.
\<close>

lemma median_exact_below_wrap:
  assumes c: "constructor MedianFilter ksize = Inr f" and k: "0 < ksize" "ksize \<le> 255"
    and w: "0 < w" and h: "0 < h" and len: "length data = w * h * 4"
  shows "calculate f data cx cy (int w) (int h) =
           perChannel (\<lambda>ch. Some (real
             (sort (map (sampleAt data ch) (samplePositions (radius f) cx cy (int w) (int h)))
                ! (nat (ksize * ksize) div 2))))"
proof -
  define ps where "ps = samplePositions (ksize div 2) cx cy (int w) (int h)"
  have f: "kind f = MedianFilter" "radius f = ksize div 2" "kernelSize f = ksize"
    using constructor_Inr(2) [OF c] by simp_all
  have odd: "odd ksize" using constructor_Inr(1) [OF c] .
  then have side: "2 * (ksize div 2) + 1 = ksize" by (simp add: odd_two_times_div_two_succ)
  have lps: "length ps = nat ksize * nat ksize"
    unfolding ps_def samplePositions_length side ..
  have "nat ksize \<le> 255" using k by simp
  then have "nat ksize * nat ksize \<le> 255 * 255" by (intro mult_mono) simp_all
  then have small: "length ps < 65536" unfolding lps by simp
  have ne: "ps \<noteq> []" using k lps by (cases ps) simp_all
  have N: "nat (ksize * ksize) = length ps" using k by (simp add: lps nat_mult_distrib)
  have rank: "ksize * ksize div 2 + 1 = int (length ps div 2) + 1"
    using k by (simp add: N [symmetric] zdiv_int)
  have ch: "findMedian (ksize * ksize div 2 + 1)
               (fold (\<lambda>p hist. histIncr (rdByte data (p + ch)) hist) ps createHistogram)
            = int (sort (map (sampleAt data ch) ps) ! (length ps div 2))"
    if "ch \<in> {0, 1, 2}" for ch :: int
  proof -
    have "\<forall>p \<in> set ps. rdByte data (p + ch) = Some (data ! nat (p + ch))"
      using rd_sample(2) [OF _ w h len that] unfolding ps_def by blast
    moreover have "sampleAt data ch = (\<lambda>p. unat (data ! nat (p + ch)))"
      by (rule ext) (simp add: sampleAt_def)
    ultimately show ?thesis
      unfolding rank using median_channel_exact [OF _ ne small] by simp
  qed
  show ?thesis
    using ch [of 0] ch [of 1] ch [of 2]
    by (simp add: calculate_def f calculateMedianValues_def perChannel_def Let_def
          ps_def [symmetric] N)
qed

section \<open>The Gaussian kernel\<close>










lemma gaussian_kernel_entries:
  assumes s2: "fl64 (fl64 (2 * sig) * sig) \<noteq> 0" and k: "0 < ksize"
    and T: "T = sum_list (map (\<lambda>i. exp (- real_of_int ((i - rad) * (i - rad))
                                       / fl64 (fl64 (2 * sig) * sig))) [0..ksize - 1])"
    and Tpos: "0 < T"
  shows "createGaussianKernel f32 sig ksize rad
           = map (\<lambda>i. Some (f32 (f32 (exp (- real_of_int ((i - rad) * (i - rad))
                                              / fl64 (fl64 (2 * sig) * sig))) / T)))
               [0..ksize - 1]"
proof -
  define e where "e i = exp (- real_of_int ((i - rad) * (i - rad)) / fl64 (fl64 (2 * sig) * sig))" for i
  define idx where "idx = [0..ksize - 1]"
  have vals: "map (\<lambda>i. js_exp (js_div (Some (- real_of_int ((i - rad) * (i - rad))))
                (Some (fl64 (fl64 (2 * sig) * sig))))) idx
              = map (\<lambda>i. Some (e i)) idx"
    using s2 by (simp add: js_exp_def js_div_def e_def)
  have total: "fold (\<lambda>v s. js_add s v) (map (\<lambda>i. Some (e i)) idx) (Some 0) = Some T"
    using fold_js_add [of "map (\<lambda>i. Some (e i)) idx" "\<lambda>v. v" the 0]
    by (simp add: T e_def idx_def comp_def)
  have "createGaussianKernel f32 sig ksize rad
          = map (\<lambda>v. map_option f32 (js_div (map_option f32 v) (Some T)))
              (map (\<lambda>i. Some (e i)) idx)"
    by (simp only: createGaussianKernel_def Let_def idx_def [symmetric] vals total)
  also have "\<dots> = map (\<lambda>i. Some (f32 (f32 (e i) / T))) idx"
    using Tpos by (simp add: js_div_def comp_def)
  finally show ?thesis by (simp only: e_def idx_def)
qed

text \<open>
  With no rounding on the stores into the kernel array (\<open>f32\<close> the identity) the
  normalised entries add up to exactly 1, whenever the double \<open>2 * sigma * sigma\<close> is
  not zero and the size is positive.
\<close>

lemma gaussian_kernel_exact_sum:
  assumes s2: "fl64 (fl64 (2 * sig) * sig) \<noteq> 0" and k: "0 < ksize"
  shows "fold (\<lambda>v s. js_add s v) (createGaussianKernel (\<lambda>x. x) sig ksize rad) (Some 0) = Some 1"
proof -
  define e where "e = (\<lambda>i. exp (- real_of_int ((i - rad) * (i - rad)) / fl64 (fl64 (2 * sig) * sig)))"
  define idx where "idx = [0..ksize - 1]"
  define T where "T = sum_list (map e idx)"
  have ne: "idx \<noteq> []" using k by (simp add: idx_def)
  have Tpos: "0 < T"
  proof -
    obtain i rest where "idx = i # rest" using ne by (cases idx) auto
    moreover have "0 \<le> sum_list (map e rest)"
      by (rule sum_list_nonneg) (auto simp add: e_def)
    moreover have "0 < e i" by (simp add: e_def)
    ultimately show ?thesis by (simp add: T_def)
  qed
  have "createGaussianKernel (\<lambda>x. x) sig ksize rad
          = map (\<lambda>i. Some (exp (- real_of_int ((i - rad) * (i - rad))
                                 / fl64 (fl64 (2 * sig) * sig)) / T)) [0..ksize - 1]"
    using s2 k _ Tpos by (rule gaussian_kernel_entries) (simp only: T_def e_def idx_def)
  then have kern: "createGaussianKernel (\<lambda>x. x) sig ksize rad = map (\<lambda>i. Some (e i / T)) idx"
    by (simp only: e_def idx_def)
  have "fold (\<lambda>v s. js_add s v) (map (\<lambda>i. Some (e i / T)) idx) (Some 0)
          = Some (0 + sum_list (map the (map (\<lambda>i. Some (e i / T)) idx)))"
    by (rule fold_js_add) auto
  also have "sum_list (map the (map (\<lambda>i. Some (e i / T)) idx)) = sum_list (map (\<lambda>i. e i / T) idx)"
    by (simp add: comp_def)
  also have "\<dots> = T / T"
    by (simp only: T_def divide_inverse sum_list_mult_const)
  finally show ?thesis using Tpos by (simp add: kern)
qed




end
